theory Spec2Isabelle
  imports Complex_Main "HOL-Library.Word" "HOL-Library.Log_Nat"
begin

unbundle bit_operations_syntax

section \<open>Machine integers and the highest-set-bit primitive\<close>

type_synonym u32 = "32 word"

text \<open>
  \<^verbatim>\<open>__builtin_clz\<close> counts the zero bits above the highest set bit of a 32-bit value.
  The scan below starts at bit 31. The C builtin is undefined at 0; every use in
  \<^verbatim>\<open>sensors.c\<close> is guarded by \<^verbatim>\<open>while (mask)\<close>, and the loops below keep that guard.
\<close>

fun clz_from :: "nat \<Rightarrow> u32 \<Rightarrow> nat" where
  "clz_from 0 w = 0"
| "clz_from (Suc n) w = (if bit w n then 0 else Suc (clz_from n w))"

definition builtin_clz :: "u32 \<Rightarrow> nat" where
  "builtin_clz w = clz_from 32 w"

text \<open>The expression \<^verbatim>\<open>31 - __builtin_clz(mask)\<close>.\<close>

definition top_bit :: "u32 \<Rightarrow> nat" where
  "top_bit w = 31 - builtin_clz w"

text \<open>The expression \<^verbatim>\<open>mask & ~(1<<i)\<close>.\<close>

definition clear_bit :: "u32 \<Rightarrow> nat \<Rightarrow> u32" where
  "clear_bit w i = w AND NOT (push_bit i 1)"

lemma clz_from_spec:
  "\<exists>k<n. bit w k \<Longrightarrow>
     clz_from n w < n \<and> bit w (n - 1 - clz_from n w) \<and>
     (\<forall>j. n - 1 - clz_from n w < j \<and> j < n \<longrightarrow> \<not> bit w j)"
proof (induction n)
  case 0
  then show ?case by simp
next
  case (Suc n)
  show ?case
  proof (cases "bit w n")
    case True
    then show ?thesis by auto
  next
    case False
    with Suc.prems have "\<exists>k<n. bit w k"
      by (metis less_Suc_eq)
    from Suc.IH [OF this] False show ?thesis
      by (auto simp: Suc_diff_Suc less_Suc_eq)
  qed
qed

lemma word32_nonzero_bit:
  fixes w :: u32
  assumes "w \<noteq> 0"
  shows "\<exists>k<32. bit w k"
proof -
  from assms obtain k where k: "bit w k"
    by (auto simp: bit_eq_iff)
  then have "k < 32"
    using bit_imp_le_length [of w k] by simp
  with k show ?thesis by blast
qed

lemma top_bit_set:
  "w \<noteq> 0 \<Longrightarrow> bit w (top_bit w)"
  using clz_from_spec [OF word32_nonzero_bit, of w]
  by (simp add: top_bit_def builtin_clz_def)

lemma top_bit_less:
  "w \<noteq> 0 \<Longrightarrow> top_bit w < 32"
  by (simp add: top_bit_def)

lemma top_bit_highest:
  "w \<noteq> 0 \<Longrightarrow> top_bit w < j \<Longrightarrow> \<not> bit w j"
proof (cases "j < 32")
  case True
  assume "w \<noteq> 0" "top_bit w < j"
  with True clz_from_spec [OF word32_nonzero_bit, of w] show ?thesis
    by (simp add: top_bit_def builtin_clz_def)
next
  case False
  then show ?thesis
    using bit_imp_le_length [of w j] by auto
qed

lemma bit_clear_bit:
  "bit (clear_bit w i) j \<longleftrightarrow> bit w j \<and> j \<noteq> i"
  by (auto simp: clear_bit_def bit_simps dest: bit_imp_le_length)

definition popcount :: "u32 \<Rightarrow> nat" where
  "popcount w = length (filter (bit w) [0..<32])"

lemma finite_bits: "finite {k. bit (w :: u32) k}"
proof (rule finite_subset)
  show "{k. bit w k} \<subseteq> {..<32}"
    using bit_imp_le_length [of w] by auto
qed simp

lemma popcount_card: "popcount w = card {k. bit w k}"
proof -
  have "{k. bit w k} \<inter> set [0..<32] = {k. bit w k}"
    using bit_imp_le_length [of w] by auto
  then show ?thesis
    by (simp add: popcount_def distinct_length_filter)
qed

lemma popcount_clear_bit:
  assumes "bit w i"
  shows "popcount (clear_bit w i) < popcount w"
proof -
  have "{k. bit (clear_bit w i) k} \<subset> {k. bit w k}"
    using assms by (auto simp: bit_clear_bit)
  then show ?thesis
    unfolding popcount_card by (rule psubset_card_mono [OF finite_bits])
qed

lemma popcount_clear_top:
  "w \<noteq> 0 \<Longrightarrow> popcount (clear_bit w (top_bit w)) < popcount w"
  by (rule popcount_clear_bit) (rule top_bit_set)

section \<open>Single-precision arithmetic\<close>

text \<open>
  The sample fields are C \<^verbatim>\<open>float\<close>s. A float is modelled by the rational number it
  denotes, and every operation rounds its exact result to the nearest binary32 value,
  ties to even, as IEEE 754 arithmetic evaluated in single precision does. The exponent
  is clamped at \<open>-126\<close>, which gives the subnormal spacing. Infinities and NaN
  are not represented: the operands in \<^verbatim>\<open>sensors.c\<close> are 32-bit integers and the
  constants below, whose products stay far below \<open>2 ^ 128\<close>.
\<close>

type_synonym f32 = rat

definition rne :: "rat \<Rightarrow> int" where
  "rne m = (let f = \<lfloor>m\<rfloor>; d = m - of_int f in
     if d < 1 / 2 then f
     else if 1 / 2 < d then f + 1
     else if even f then f else f + 1)"

definition f32_exponent :: "rat \<Rightarrow> int" where
  "f32_exponent x = max (- 126) (bitlen \<lfloor>\<bar>x\<bar> * 2 ^ 149\<rfloor> - 150)"

definition f32_round :: "rat \<Rightarrow> f32" where
  "f32_round x = (let u = 2 powi (f32_exponent x - 23) in of_int (rne (x / u)) * u)"

definition f32_of_int :: "int \<Rightarrow> f32" where
  "f32_of_int n = f32_round (of_int n)"

definition f32_mul :: "f32 \<Rightarrow> f32 \<Rightarrow> f32" where
  "f32_mul a b = f32_round (a * b)"

definition f32_div :: "f32 \<Rightarrow> f32 \<Rightarrow> f32" where
  "f32_div a b = f32_round (a / b)"

text \<open>
  Conversion of a float argument to the \<^verbatim>\<open>int32_t\<close> parameter of \<^verbatim>\<open>send_event\<close>:
  truncation towards zero. C leaves the conversion of a value outside the range of
  \<^verbatim>\<open>int32_t\<close> undefined; the ARM conversion instruction saturates, which is what is
  written here.
\<close>

definition f32_to_int32 :: "f32 \<Rightarrow> int" where
  "f32_to_int32 x =
     (let t = (if 0 \<le> x then \<lfloor>x\<rfloor> else \<lceil>x\<rceil>) in
      if t < - (2 ^ 31) then - (2 ^ 31) else if 2 ^ 31 - 1 < t then 2 ^ 31 - 1 else t)"

section \<open>Constants of \<^verbatim>\<open>sensors.c\<close> and of the headers it includes\<close>

definition MAX_NUM_SENSORS :: nat where "MAX_NUM_SENSORS = 6"

definition SUPPORTED_SENSORS :: u32 where
  "SUPPORTED_SENSORS = push_bit MAX_NUM_SENSORS 1 - 1"

definition ID_A :: nat where "ID_A = 0"
definition ID_M :: nat where "ID_M = 1"
definition ID_O :: nat where "ID_O = 2"
definition ID_T :: nat where "ID_T = 3"
definition ID_P :: nat where "ID_P = 4"
definition ID_L :: nat where "ID_L = 5"

definition SENSORS_ACCELERATION :: u32 where "SENSORS_ACCELERATION = push_bit ID_A 1"
definition SENSORS_MAGNETIC_FIELD :: u32 where "SENSORS_MAGNETIC_FIELD = push_bit ID_M 1"
definition SENSORS_ORIENTATION :: u32 where "SENSORS_ORIENTATION = push_bit ID_O 1"
definition SENSORS_TEMPERATURE :: u32 where "SENSORS_TEMPERATURE = push_bit ID_T 1"
definition SENSORS_PROXIMITY :: u32 where "SENSORS_PROXIMITY = push_bit ID_P 1"
definition SENSORS_LIGHT :: u32 where "SENSORS_LIGHT = push_bit ID_L 1"

definition MAX_NUM_DRIVERS :: nat where "MAX_NUM_DRIVERS = 4"

definition ID_LIS :: nat where "ID_LIS = 0"
definition ID_AKM :: nat where "ID_AKM = 1"
definition ID_SFH :: nat where "ID_SFH = 2"

text \<open>
  The \<^verbatim>\<open>mask\<close> column of \<^verbatim>\<open>dDriverList\<close>. The table has three rows; no row is read
  beyond them by the functions modelled here.
\<close>

definition dDriverList_mask :: "nat \<Rightarrow> u32" where
  "dDriverList_mask n =
     (if n = 0 then SENSORS_ACCELERATION
      else if n = 1 then SENSORS_MAGNETIC_FIELD OR SENSORS_ORIENTATION OR SENSORS_TEMPERATURE
      else if n = 2 then SENSORS_LIGHT
      else 0)"

text \<open>
  Modelled from the spec: the constants of \<^verbatim>\<open>hardware/sensors.h\<close> and
  \<^verbatim>\<open>linux/input.h\<close>, which are included by \<^verbatim>\<open>sensors.c\<close> and are not part of the
  repository. The spec fixes their roles (the handle of a sensor is its identity
  ordinal, standard gravity, the high-accuracy status, the event classes of the raw
  stream); the values are those of the Android and Linux headers.
\<close>

definition SENSORS_HANDLE_BASE :: int where "SENSORS_HANDLE_BASE = 0"
definition SENSOR_STATUS_ACCURACY_HIGH :: "8 word" where "SENSOR_STATUS_ACCURACY_HIGH = 3"
definition GRAVITY_EARTH :: f32 where "GRAVITY_EARTH = f32_round (980665 / 100000)"

definition EV_SYN :: "16 word" where "EV_SYN = 0x00"
definition EV_ABS :: "16 word" where "EV_ABS = 0x03"
definition EV_LED :: "16 word" where "EV_LED = 0x11"
definition SYN_CONFIG :: "16 word" where "SYN_CONFIG = 1"
definition ABS_X :: "16 word" where "ABS_X = 0x00"
definition ABS_Y :: "16 word" where "ABS_Y = 0x01"
definition ABS_Z :: "16 word" where "ABS_Z = 0x02"
definition ABS_RX :: "16 word" where "ABS_RX = 0x03"
definition ABS_RY :: "16 word" where "ABS_RY = 0x04"
definition ABS_RZ :: "16 word" where "ABS_RZ = 0x05"
definition ABS_THROTTLE :: "16 word" where "ABS_THROTTLE = 0x06"
definition ABS_RUDDER :: "16 word" where "ABS_RUDDER = 0x07"
definition ABS_WHEEL :: "16 word" where "ABS_WHEEL = 0x08"
definition ABS_BRAKE :: "16 word" where "ABS_BRAKE = 0x0a"
definition ABS_HAT0X :: "16 word" where "ABS_HAT0X = 0x10"
definition ABS_HAT0Y :: "16 word" where "ABS_HAT0Y = 0x11"
definition ABS_DISTANCE :: "16 word" where "ABS_DISTANCE = 0x19"
definition LED_MISC :: "16 word" where "LED_MISC = 0x08"

definition EVENT_TYPE_ACCEL_X :: "16 word" where "EVENT_TYPE_ACCEL_X = ABS_X"
definition EVENT_TYPE_ACCEL_Y :: "16 word" where "EVENT_TYPE_ACCEL_Y = ABS_Y"
definition EVENT_TYPE_ACCEL_Z :: "16 word" where "EVENT_TYPE_ACCEL_Z = ABS_Z"
definition EVENT_TYPE_ACCEL_STATUS :: "16 word" where "EVENT_TYPE_ACCEL_STATUS = ABS_WHEEL"
definition EVENT_TYPE_YAW :: "16 word" where "EVENT_TYPE_YAW = ABS_RX"
definition EVENT_TYPE_PITCH :: "16 word" where "EVENT_TYPE_PITCH = ABS_RY"
definition EVENT_TYPE_ROLL :: "16 word" where "EVENT_TYPE_ROLL = ABS_RZ"
definition EVENT_TYPE_ORIENT_STATUS :: "16 word" where "EVENT_TYPE_ORIENT_STATUS = ABS_RUDDER"
definition EVENT_TYPE_MAGV_X :: "16 word" where "EVENT_TYPE_MAGV_X = ABS_HAT0X"
definition EVENT_TYPE_MAGV_Y :: "16 word" where "EVENT_TYPE_MAGV_Y = ABS_HAT0Y"
definition EVENT_TYPE_MAGV_Z :: "16 word" where "EVENT_TYPE_MAGV_Z = ABS_BRAKE"
definition EVENT_TYPE_TEMPERATURE :: "16 word" where "EVENT_TYPE_TEMPERATURE = ABS_THROTTLE"
definition EVENT_TYPE_PROXIMITY :: "16 word" where "EVENT_TYPE_PROXIMITY = ABS_DISTANCE"
definition EVENT_TYPE_LIGHT :: "16 word" where "EVENT_TYPE_LIGHT = LED_MISC"

definition LSG :: f32 where "LSG = 1000"
definition CONVERT_A :: f32 where "CONVERT_A = f32_div GRAVITY_EARTH LSG"
definition CONVERT_A_X :: f32 where "CONVERT_A_X = CONVERT_A"
definition CONVERT_A_Y :: f32 where "CONVERT_A_Y = CONVERT_A"
definition CONVERT_A_Z :: f32 where "CONVERT_A_Z = CONVERT_A"
definition CONVERT_M :: f32 where "CONVERT_M = f32_div 1 16"
definition CONVERT_M_X :: f32 where "CONVERT_M_X = CONVERT_M"
definition CONVERT_M_Y :: f32 where "CONVERT_M_Y = - CONVERT_M"
definition CONVERT_M_Z :: f32 where "CONVERT_M_Z = - CONVERT_M"
definition CONVERT_O :: f32 where "CONVERT_O = f32_div 1 64"
definition CONVERT_O_Y :: f32 where "CONVERT_O_Y = CONVERT_O"
definition CONVERT_O_P :: f32 where "CONVERT_O_P = CONVERT_O"
definition CONVERT_O_R :: f32 where "CONVERT_O_R = - CONVERT_O"
definition CONVERT_P :: f32 where "CONVERT_P = f32_div 1 5"
definition PROXIMITY_THRESHOLD_CM :: f32 where "PROXIMITY_THRESHOLD_CM = 6"
definition SENSOR_STATE_MASK :: "32 word" where "SENSOR_STATE_MASK = 0x7FFF"

section \<open>Data model\<close>

text \<open>
  Modelled from the spec: \<^verbatim>\<open>sensors_data_t\<close> and \<^verbatim>\<open>struct input_event\<close> are declared in
  \<^verbatim>\<open>hardware/sensors.h\<close> and \<^verbatim>\<open>linux/input.h\<close>, outside the repository. A sample is a
  sensor identifier, a payload (a 3-vector with an accuracy status byte, or a scalar), and
  a nanosecond timestamp. The payload is a C union: \<^verbatim>\<open>azimuth\<close>, \<^verbatim>\<open>temperature\<close>,
  \<^verbatim>\<open>distance\<close> and \<^verbatim>\<open>light\<close> are other names of the first float \<^verbatim>\<open>x\<close>, \<^verbatim>\<open>pitch\<close> of
  \<^verbatim>\<open>y\<close> and \<^verbatim>\<open>roll\<close> of \<^verbatim>\<open>z\<close>; the status byte lies behind the three floats. A
  raw event is a time (seconds and microseconds, 32-bit each on the target), a type, a
  code and a 32-bit signed value.
\<close>

record sensors_data_t =
  sensor :: int
  v_x :: f32
  v_y :: f32
  v_z :: f32
  status :: "8 word"
  time :: "64 word"

record input_event =
  tv_sec :: "32 word"
  tv_usec :: "32 word"
  ev_type :: "16 word"
  ev_code :: "16 word"
  ev_value :: "32 word"

text \<open>
  \<^verbatim>\<open>struct sensors_data_context_t\<close>. The array \<^verbatim>\<open>sensors[MAX_NUM_SENSORS]\<close> is a function
  of the index; the code reads and writes the indices below 6 only.
\<close>

record sensors_data_context_t =
  events_fd :: int
  sensors :: "nat \<Rightarrow> sensors_data_t"
  pendingSensors :: u32

section \<open>The delivery path: \<^verbatim>\<open>data__data_open\<close>, \<^verbatim>\<open>pick_sensor\<close>, \<^verbatim>\<open>data__poll\<close>\<close>

definition zero_sample :: sensors_data_t where
  "zero_sample = \<lparr>sensor = 0, v_x = 0, v_y = 0, v_z = 0, status = 0, time = 0\<rparr>"

text \<open>
  \<^verbatim>\<open>data__data_open\<close>: \<^verbatim>\<open>memset\<close> of the sample array, the loop over
  \<^verbatim>\<open>i < MAX_NUM_SENSORS\<close> that sets the status, the pending mask, and the descriptor
  returned by \<^verbatim>\<open>dup(handle->data[0])\<close>, here the argument \<open>dup_fd\<close>. The function
  returns 0 on every path.
\<close>

definition data__data_open ::
  "sensors_data_context_t \<Rightarrow> int \<Rightarrow> int \<times> sensors_data_context_t" where
  "data__data_open dev dup_fd =
     (let zeroed = (\<lambda>i. zero_sample);
          sens = fold (\<lambda>i s. s(i := (s i)\<lparr>status := SENSOR_STATUS_ACCURACY_HIGH\<rparr>))
                   [0..<MAX_NUM_SENSORS] zeroed
      in (0, dev\<lparr>sensors := sens, pendingSensors := 0, events_fd := dup_fd\<rparr>))"

text \<open>\<^verbatim>\<open>data__data_close\<close>.\<close>

definition data__data_close :: "sensors_data_context_t \<Rightarrow> int \<times> sensors_data_context_t" where
  "data__data_close dev =
     (if 0 \<le> events_fd dev then (0, dev\<lparr>events_fd := - 1\<rparr>) else (0, dev))"

text \<open>
  \<^verbatim>\<open>pick_sensor\<close>: the result is the return value, the caller's \<^verbatim>\<open>*values\<close> and the
  context. The loop runs over the bits of \<^verbatim>\<open>mask\<close> (here \<open>msk\<close>) from the highest down.
\<close>

function pick_sensor_loop ::
  "u32 \<Rightarrow> sensors_data_context_t \<Rightarrow> sensors_data_t
     \<Rightarrow> int \<times> sensors_data_t \<times> sensors_data_context_t" where
  "pick_sensor_loop msk dev values =
     (if msk \<noteq> 0 then
        (let i = top_bit msk; msk' = clear_bit msk i in
         if pendingSensors dev AND push_bit i 1 \<noteq> 0 then
           (int i,
            (sensors dev i)\<lparr>sensor := 2 ^ i\<rparr>,
            dev\<lparr>pendingSensors := clear_bit (pendingSensors dev) i\<rparr>)
         else pick_sensor_loop msk' dev values)
      else (- 1, values, dev))"
  by pat_completeness auto
termination
  by (relation "measure (\<lambda>(msk, dev, values). popcount msk)")
    (auto simp: popcount_clear_top)

declare pick_sensor_loop.simps [simp del]

definition pick_sensor ::
  "sensors_data_context_t \<Rightarrow> sensors_data_t \<Rightarrow> int \<times> sensors_data_t \<times> sensors_data_context_t" where
  "pick_sensor dev values = pick_sensor_loop SUPPORTED_SENSORS dev values"

text \<open>
  The loop of \<^verbatim>\<open>data__poll\<close> that stamps \<^verbatim>\<open>dev->sensors[i].time = t\<close> for every bit
  \<open>i\<close> of \<^verbatim>\<open>new_sensors\<close>.
\<close>

function stamp_time ::
  "u32 \<Rightarrow> 64 word \<Rightarrow> (nat \<Rightarrow> sensors_data_t) \<Rightarrow> (nat \<Rightarrow> sensors_data_t)" where
  "stamp_time new_sensors t sens =
     (if new_sensors \<noteq> 0 then
        (let i = top_bit new_sensors in
         stamp_time (clear_bit new_sensors i) t (sens(i := (sens i)\<lparr>time := t\<rparr>)))
      else sens)"
  by pat_completeness auto
termination
  by (relation "measure (\<lambda>(new_sensors, t, sens). popcount new_sensors)")
    (auto simp: popcount_clear_top)

declare stamp_time.simps [simp del]

text \<open>
  \<^verbatim>\<open>event.time.tv_sec*1000000000LL + event.time.tv_usec*1000\<close>: the seconds are widened
  to 64 bits before the multiplication, the microseconds are multiplied in \<^verbatim>\<open>long\<close>
  (32 bits on the target) and widened for the sum.
\<close>

definition event_time_ns :: "input_event \<Rightarrow> 64 word" where
  "event_time_ns event = scast (tv_sec event) * 1000000000 + scast (tv_usec event * 1000)"

text \<open>
  The \<^verbatim>\<open>switch (event.code)\<close> of an \<^verbatim>\<open>EV_ABS\<close> event in \<^verbatim>\<open>data__poll\<close>, on the
  local \<^verbatim>\<open>new_sensors\<close> and the sample array. \<^verbatim>\<open>event.value * CONVERT_A_X\<close> converts the
  integer to float and multiplies in float.
\<close>

definition data_abs_event ::
  "input_event \<Rightarrow> u32 \<times> (nat \<Rightarrow> sensors_data_t) \<Rightarrow> u32 \<times> (nat \<Rightarrow> sensors_data_t)" where
  "data_abs_event event st =
     (let new_sensors = fst st; sens = snd st; c = ev_code event;
          fv = f32_of_int (sint (ev_value event)) in
      if c = EVENT_TYPE_ACCEL_X then
        (new_sensors OR SENSORS_ACCELERATION,
         sens(ID_A := (sens ID_A)\<lparr>v_x := f32_mul fv CONVERT_A_X\<rparr>))
      else if c = EVENT_TYPE_ACCEL_Y then
        (new_sensors OR SENSORS_ACCELERATION,
         sens(ID_A := (sens ID_A)\<lparr>v_y := f32_mul fv CONVERT_A_Y\<rparr>))
      else if c = EVENT_TYPE_ACCEL_Z then
        (new_sensors OR SENSORS_ACCELERATION,
         sens(ID_A := (sens ID_A)\<lparr>v_z := f32_mul fv CONVERT_A_Z\<rparr>))
      else if c = EVENT_TYPE_MAGV_X then
        (new_sensors OR SENSORS_MAGNETIC_FIELD,
         sens(ID_M := (sens ID_M)\<lparr>v_x := f32_mul fv CONVERT_M_X\<rparr>))
      else if c = EVENT_TYPE_MAGV_Y then
        (new_sensors OR SENSORS_MAGNETIC_FIELD,
         sens(ID_M := (sens ID_M)\<lparr>v_y := f32_mul fv CONVERT_M_Y\<rparr>))
      else if c = EVENT_TYPE_MAGV_Z then
        (new_sensors OR SENSORS_MAGNETIC_FIELD,
         sens(ID_M := (sens ID_M)\<lparr>v_z := f32_mul fv CONVERT_M_Z\<rparr>))
      else if c = EVENT_TYPE_YAW then
        (new_sensors OR SENSORS_ORIENTATION,
         sens(ID_O := (sens ID_O)\<lparr>v_x := f32_mul fv CONVERT_O_Y\<rparr>))
      else if c = EVENT_TYPE_PITCH then
        (new_sensors OR SENSORS_ORIENTATION,
         sens(ID_O := (sens ID_O)\<lparr>v_y := f32_mul fv CONVERT_O_P\<rparr>))
      else if c = EVENT_TYPE_ROLL then
        (new_sensors OR SENSORS_ORIENTATION,
         sens(ID_O := (sens ID_O)\<lparr>v_z := f32_mul fv CONVERT_O_R\<rparr>))
      else if c = EVENT_TYPE_TEMPERATURE then
        (new_sensors OR SENSORS_TEMPERATURE,
         sens(ID_T := (sens ID_T)\<lparr>v_x := fv\<rparr>))
      else if c = EVENT_TYPE_ACCEL_STATUS then
        (new_sensors, sens)
      else if c = EVENT_TYPE_ORIENT_STATUS then
        (let v = ev_value event AND SENSOR_STATE_MASK in
         (new_sensors, sens(ID_O := (sens ID_O)\<lparr>status := ucast v\<rparr>)))
      else if c = EVENT_TYPE_PROXIMITY then
        (new_sensors OR SENSORS_PROXIMITY,
         (if f32_mul fv CONVERT_P \<le> PROXIMITY_THRESHOLD_CM
          then sens(ID_P := (sens ID_P)\<lparr>v_x := 0\<rparr>)
          else sens(ID_P := (sens ID_P)\<lparr>v_x := PROXIMITY_THRESHOLD_CM\<rparr>)))
      else (new_sensors, sens))"

text \<open>The \<^verbatim>\<open>EV_LED\<close> branch.\<close>

definition data_led_event ::
  "input_event \<Rightarrow> u32 \<times> (nat \<Rightarrow> sensors_data_t) \<Rightarrow> u32 \<times> (nat \<Rightarrow> sensors_data_t)" where
  "data_led_event event st =
     (let new_sensors = fst st; sens = snd st in
      if ev_code event = LED_MISC then
        (new_sensors OR SENSORS_LIGHT,
         sens(ID_L := (sens ID_L)\<lparr>v_x := f32_of_int (sint (ev_value event))\<rparr>))
      else (new_sensors, sens))"

text \<open>
  The \<^verbatim>\<open>while (1)\<close> loop of \<^verbatim>\<open>data__poll\<close>. The raw stream is the list of the events
  that \<^verbatim>\<open>read\<close> returns in full; the read after the last of them returns short, and
  the function returns \<open>-1\<close>. The result is the return value, \<^verbatim>\<open>*values\<close>, the
  context and the unread rest of the stream.
\<close>

fun data__poll_loop ::
  "input_event list \<Rightarrow> u32 \<Rightarrow> sensors_data_context_t \<Rightarrow> sensors_data_t
     \<Rightarrow> int \<times> sensors_data_t \<times> sensors_data_context_t \<times> input_event list" where
  "data__poll_loop [] new_sensors dev values = (- 1, values, dev, [])"
| "data__poll_loop (event # rest) new_sensors dev values =
     (if ev_type event = EV_ABS then
        (let st = data_abs_event event (new_sensors, sensors dev) in
         data__poll_loop rest (fst st) (dev\<lparr>sensors := snd st\<rparr>) values)
      else if ev_type event = EV_LED then
        (let st = data_led_event event (new_sensors, sensors dev) in
         data__poll_loop rest (fst st) (dev\<lparr>sensors := snd st\<rparr>) values)
      else if ev_type event = EV_SYN then
        (if ev_code event = SYN_CONFIG then (0x7FFFFFFF, values, dev, rest)
         else if new_sensors \<noteq> 0 then
           (let dev1 = dev\<lparr>pendingSensors := new_sensors\<rparr>;
                t = event_time_ns event;
                dev2 = dev1\<lparr>sensors := stamp_time new_sensors t (sensors dev1)\<rparr>;
                r = pick_sensor dev2 values
            in (fst r, fst (snd r), snd (snd r), rest))
         else data__poll_loop rest new_sensors dev values)
      else data__poll_loop rest new_sensors dev values)"

definition data__poll ::
  "sensors_data_context_t \<Rightarrow> sensors_data_t \<Rightarrow> input_event list
     \<Rightarrow> int \<times> sensors_data_t \<times> sensors_data_context_t \<times> input_event list" where
  "data__poll dev values stream =
     (let fd = events_fd dev in
      if fd < 0 then (- 1, values, dev, stream)
      else if pendingSensors dev \<noteq> 0 then
        (let r = pick_sensor dev values in (fst r, fst (snd r), snd (snd r), stream))
      else data__poll_loop stream 0 dev values)"

section \<open>The activation state machine: \<^verbatim>\<open>control__activate\<close>\<close>

text \<open>
  \<^verbatim>\<open>struct sensors_control_context_t\<close>, without the function table and the thread
  handle. \<^verbatim>\<open>dev_fd[MAX_NUM_DRIVERS]\<close> and \<^verbatim>\<open>filter_sensors[MAX_NUM_SENSORS]\<close> are functions
  of the index.
\<close>

record sensors_control_context_t =
  dev_fd :: "nat \<Rightarrow> int"
  filter_sensors :: "nat \<Rightarrow> sensors_data_t"
  active_sensors :: u32
  active_drivers :: u32
  uinput :: int

text \<open>
  What the operating system answers during one call of \<^verbatim>\<open>control__activate\<close>: the
  result of \<^verbatim>\<open>open(dDriverList[n].loc, O_RDONLY)\<close> for each driver \<open>n\<close> (a descriptor, or
  a negative value), the result of \<^verbatim>\<open>ioctl(fd, KXTF9_IOCTL_SET_ENABLE, &flags)\<close>, and
  the value of \<^verbatim>\<open>errno\<close> read after a failed \<^verbatim>\<open>ioctl\<close>. A call opens each driver and
  issues the \<^verbatim>\<open>ioctl\<close> at most once.
\<close>

record device_env =
  open_result :: "nat \<Rightarrow> int"
  ioctl_result :: int
  errno :: int

text \<open>
  The system calls a call issues on the devices, in order, each with its result:
  \<open>Sys_open n r\<close> for \<^verbatim>\<open>open\<close> of driver \<open>n\<close>, \<open>Sys_ioctl_set_enable fd flags r\<close>
  for the accelerometer command, \<open>Sys_close fd\<close> for \<^verbatim>\<open>close\<close>.
\<close>

datatype syscall =
  Sys_open nat int
| Sys_ioctl_set_enable int nat int
| Sys_close int

fun syscall_failed :: "syscall \<Rightarrow> bool" where
  "syscall_failed (Sys_open n r) = (r < 0)"
| "syscall_failed (Sys_ioctl_set_enable fd flags r) = (r < 0)"
| "syscall_failed (Sys_close fd) = False"

fun is_ioctl :: "syscall \<Rightarrow> bool" where
  "is_ioctl (Sys_ioctl_set_enable fd flags r) = True"
| "is_ioctl c = False"

text \<open>\<^verbatim>\<open>open_dev\<close>: the result is the returned descriptor, the context and the trace.\<close>

definition open_dev ::
  "device_env \<Rightarrow> sensors_control_context_t \<Rightarrow> nat \<Rightarrow> syscall list
     \<Rightarrow> int \<times> sensors_control_context_t \<times> syscall list" where
  "open_dev env dev dev_num tr =
     (if dev_fd dev dev_num < 0 then
        (let fd = open_result env dev_num in
         (fd, dev\<lparr>dev_fd := (dev_fd dev)(dev_num := fd)\<rparr>, tr @ [Sys_open dev_num fd]))
      else (dev_fd dev dev_num, dev, tr))"

text \<open>\<^verbatim>\<open>close_dev\<close>.\<close>

definition close_dev ::
  "sensors_control_context_t \<Rightarrow> nat \<Rightarrow> u32 \<Rightarrow> syscall list
     \<Rightarrow> sensors_control_context_t \<times> syscall list" where
  "close_dev dev dev_num enabled tr =
     (if 0 \<le> dev_fd dev dev_num \<and> enabled AND dDriverList_mask dev_num = 0 then
        (dev\<lparr>dev_fd := (dev_fd dev)(dev_num := - 1)\<rparr>, tr @ [Sys_close (dev_fd dev dev_num)])
      else (dev, tr))"

text \<open>
  The three blocks of \<^verbatim>\<open>control__activate\<close> under \<^verbatim>\<open>if (changed_enabled)\<close>, each a
  step on the local \<^verbatim>\<open>err\<close>, the context and the trace. The \<^verbatim>\<open>ioctl\<close>s of the second
  and third block are commented out in the source.
\<close>

definition activate_lis ::
  "device_env \<Rightarrow> u32 \<Rightarrow> u32 \<Rightarrow> int \<times> sensors_control_context_t \<times> syscall list
     \<Rightarrow> int \<times> sensors_control_context_t \<times> syscall list" where
  "activate_lis env changed_enabled new_enabled st =
     (let err = fst st; dev = fst (snd st); tr = snd (snd st) in
      if changed_enabled AND SENSORS_ACCELERATION \<noteq> 0 then
        (let od = open_dev env dev ID_LIS tr;
             fd = fst od; dev1 = fst (snd od); tr1 = snd (snd od) in
         if 0 \<le> fd then
           (let flags = (if new_enabled AND SENSORS_ACCELERATION \<noteq> 0 then 1 else 0);
                tr2 = tr1 @ [Sys_ioctl_set_enable fd flags (ioctl_result env)];
                err2 = (if ioctl_result env < 0 then - errno env else err);
                cd = close_dev dev1 ID_LIS new_enabled tr2
            in (err2, fst cd, snd cd))
         else (fd, dev1, tr1))
      else (err, dev, tr))"

definition activate_sfh ::
  "device_env \<Rightarrow> u32 \<Rightarrow> u32 \<Rightarrow> int \<times> sensors_control_context_t \<times> syscall list
     \<Rightarrow> int \<times> sensors_control_context_t \<times> syscall list" where
  "activate_sfh env changed_enabled new_enabled st =
     (let err = fst st; dev = fst (snd st); tr = snd (snd st) in
      if changed_enabled AND SENSORS_PROXIMITY \<noteq> 0 then
        (let od = open_dev env dev ID_SFH tr;
             fd = fst od; dev1 = fst (snd od); tr1 = snd (snd od) in
         if 0 \<le> fd then
           (let cd = close_dev dev1 ID_SFH new_enabled tr1 in (err, fst cd, snd cd))
         else (fd, dev1, tr1))
      else (err, dev, tr))"

definition activate_akm ::
  "device_env \<Rightarrow> u32 \<Rightarrow> u32 \<Rightarrow> int \<times> sensors_control_context_t \<times> syscall list
     \<Rightarrow> int \<times> sensors_control_context_t \<times> syscall list" where
  "activate_akm env changed_enabled new_enabled st =
     (let err = fst st; dev = fst (snd st); tr = snd (snd st) in
      if changed_enabled AND
           (SENSORS_ORIENTATION OR SENSORS_TEMPERATURE OR SENSORS_MAGNETIC_FIELD) \<noteq> 0 then
        (let od = open_dev env dev ID_AKM tr;
             fd = fst od; dev1 = fst (snd od); tr1 = snd (snd od);
             err1 = (if 0 \<le> fd then err else fd);
             cd = close_dev dev1 ID_AKM new_enabled tr1
         in (err1, fst cd, snd cd))
      else (err, dev, tr))"

text \<open>
  \<^verbatim>\<open>control__activate\<close>: the result is the return value, the context and the system
  calls issued.
\<close>

definition control__activate ::
  "device_env \<Rightarrow> sensors_control_context_t \<Rightarrow> int \<Rightarrow> int
     \<Rightarrow> int \<times> sensors_control_context_t \<times> syscall list" where
  "control__activate env dev handle enabled =
     (if handle < SENSORS_HANDLE_BASE \<or> SENSORS_HANDLE_BASE + int MAX_NUM_SENSORS \<le> handle
      then (- 1, dev, [])
      else
        (let handle_mask = (push_bit (nat handle) 1 :: u32);
             enabled_mask = (if enabled \<noteq> 0 then handle_mask else 0);
             current_active = active_sensors dev;
             new_active = (current_active AND NOT handle_mask) OR (enabled_mask AND handle_mask);
             current_enabled = active_drivers dev;
             new_enabled = (if new_active AND SENSORS_ORIENTATION \<noteq> 0
                            then new_active OR SENSORS_ACCELERATION else new_active);
             changed_enabled = current_enabled XOR new_enabled
         in
         if changed_enabled \<noteq> 0 then
           (let st = activate_akm env changed_enabled new_enabled
                       (activate_sfh env changed_enabled new_enabled
                         (activate_lis env changed_enabled new_enabled (0, dev, [])));
                err = fst st; dev' = fst (snd st); tr = snd (snd st)
            in if err < 0 then (err, dev', tr)
               else (0, dev'\<lparr>active_sensors := new_active, active_drivers := new_enabled\<rparr>, tr))
         else (0, dev\<lparr>active_sensors := new_active, active_drivers := new_enabled\<rparr>, [])))"

text \<open>The context that \<^verbatim>\<open>open_sensors\<close> creates for \<^verbatim>\<open>SENSORS_HARDWARE_CONTROL\<close>.\<close>

definition control_init :: sensors_control_context_t where
  "control_init =
     \<lparr>dev_fd = (\<lambda>i. - 1), filter_sensors = (\<lambda>i. zero_sample),
      active_sensors = 0, active_drivers = 0, uinput = - 1\<rparr>"

section \<open>The replication path: \<^verbatim>\<open>poll_thread\<close>\<close>

text \<open>
  What the thread writes to \<^verbatim>\<open>dev->uinput\<close>: \<open>Send_event type code value\<close> for a
  call of \<^verbatim>\<open>send_event\<close>, \<open>Write_event e\<close> for the \<^verbatim>\<open>write\<close> that passes a
  \<^verbatim>\<open>SYN_CONFIG\<close> event on. The results of the writes are not used by the source.
\<close>

datatype uinput_write =
  Send_event "16 word" "16 word" int
| Write_event input_event

text \<open>The \<^verbatim>\<open>switch (event.code)\<close> of an \<^verbatim>\<open>EV_ABS\<close> event in \<^verbatim>\<open>poll_thread\<close>.\<close>

definition thread_abs_event ::
  "input_event \<Rightarrow> u32 \<times> (nat \<Rightarrow> sensors_data_t) \<Rightarrow> u32 \<times> (nat \<Rightarrow> sensors_data_t)" where
  "thread_abs_event event st =
     (let new_sensors = fst st; filt = snd st; c = ev_code event;
          fv = f32_of_int (sint (ev_value event)) in
      if c = EVENT_TYPE_ACCEL_X then
        (new_sensors OR SENSORS_ACCELERATION, filt(ID_A := (filt ID_A)\<lparr>v_x := fv\<rparr>))
      else if c = EVENT_TYPE_ACCEL_Y then
        (new_sensors OR SENSORS_ACCELERATION, filt(ID_A := (filt ID_A)\<lparr>v_y := fv\<rparr>))
      else if c = EVENT_TYPE_ACCEL_Z then
        (new_sensors OR SENSORS_ACCELERATION, filt(ID_A := (filt ID_A)\<lparr>v_z := fv\<rparr>))
      else if c = EVENT_TYPE_MAGV_X then
        (new_sensors OR SENSORS_MAGNETIC_FIELD, filt(ID_M := (filt ID_M)\<lparr>v_x := fv\<rparr>))
      else if c = EVENT_TYPE_MAGV_Y then
        (new_sensors OR SENSORS_MAGNETIC_FIELD, filt(ID_M := (filt ID_M)\<lparr>v_y := fv\<rparr>))
      else if c = EVENT_TYPE_MAGV_Z then
        (new_sensors OR SENSORS_MAGNETIC_FIELD, filt(ID_M := (filt ID_M)\<lparr>v_z := fv\<rparr>))
      else if c = EVENT_TYPE_YAW then
        (new_sensors OR SENSORS_ORIENTATION, filt(ID_O := (filt ID_O)\<lparr>v_x := fv\<rparr>))
      else if c = EVENT_TYPE_PITCH then
        (new_sensors OR SENSORS_ORIENTATION, filt(ID_O := (filt ID_O)\<lparr>v_y := fv\<rparr>))
      else if c = EVENT_TYPE_ROLL then
        (new_sensors OR SENSORS_ORIENTATION, filt(ID_O := (filt ID_O)\<lparr>v_z := fv\<rparr>))
      else if c = EVENT_TYPE_TEMPERATURE then
        (new_sensors OR SENSORS_TEMPERATURE, filt(ID_T := (filt ID_T)\<lparr>v_x := fv\<rparr>))
      else if c = EVENT_TYPE_PROXIMITY then
        (new_sensors OR SENSORS_PROXIMITY, filt(ID_P := (filt ID_P)\<lparr>v_x := fv\<rparr>))
      else (new_sensors, filt))"

text \<open>
  The groups of \<^verbatim>\<open>send_event\<close> calls in the \<^verbatim>\<open>switch (1<<i)\<close> of the mirroring loop, each
  ending with \<^verbatim>\<open>send_event(dev->uinput, EV_SYN, 0, 0)\<close>.
\<close>

definition send_vector ::
  "16 word \<Rightarrow> 16 word \<Rightarrow> 16 word \<Rightarrow> sensors_data_t \<Rightarrow> uinput_write list" where
  "send_vector cx cy cz d =
     [Send_event EV_ABS cx (f32_to_int32 (v_x d)),
      Send_event EV_ABS cy (f32_to_int32 (v_y d)),
      Send_event EV_ABS cz (f32_to_int32 (v_z d)),
      Send_event EV_SYN 0 0]"

definition send_scalar :: "16 word \<Rightarrow> 16 word \<Rightarrow> sensors_data_t \<Rightarrow> uinput_write list" where
  "send_scalar ty c d = [Send_event ty c (f32_to_int32 (v_x d)), Send_event EV_SYN 0 0]"

definition send_orientation :: "(nat \<Rightarrow> sensors_data_t) \<Rightarrow> uinput_write list" where
  "send_orientation filt =
     send_vector EVENT_TYPE_YAW EVENT_TYPE_PITCH EVENT_TYPE_ROLL (filt ID_O)"

text \<open>
  One round of the \<^verbatim>\<open>switch (1<<i)\<close>. The case \<^verbatim>\<open>SENSORS_MAGNETIC_FIELD\<close> has no
  \<^verbatim>\<open>break\<close> and runs on into the case \<^verbatim>\<open>SENSORS_ORIENTATION\<close>.
\<close>

definition mirror_case ::
  "nat \<Rightarrow> u32 \<Rightarrow> (nat \<Rightarrow> sensors_data_t) \<Rightarrow> uinput_write list" where
  "mirror_case i active filt =
     (let b = (push_bit i 1 :: u32) in
      if b = SENSORS_ACCELERATION then
        (if active AND SENSORS_ACCELERATION \<noteq> 0
         then send_vector EVENT_TYPE_ACCEL_X EVENT_TYPE_ACCEL_Y EVENT_TYPE_ACCEL_Z (filt ID_A)
         else [])
      else if b = SENSORS_MAGNETIC_FIELD then
        send_vector EVENT_TYPE_MAGV_X EVENT_TYPE_MAGV_Y EVENT_TYPE_MAGV_Z (filt ID_M)
          @ send_orientation filt
      else if b = SENSORS_ORIENTATION then send_orientation filt
      else if b = SENSORS_TEMPERATURE then send_scalar EV_ABS EVENT_TYPE_TEMPERATURE (filt ID_T)
      else if b = SENSORS_PROXIMITY then send_scalar EV_ABS EVENT_TYPE_PROXIMITY (filt ID_P)
      else if b = SENSORS_LIGHT then send_scalar EV_LED EVENT_TYPE_LIGHT (filt ID_L)
      else [])"

text \<open>The loop \<^verbatim>\<open>while(new_sensors)\<close> of the \<^verbatim>\<open>EV_SYN\<close> branch.\<close>

function mirror_loop ::
  "u32 \<Rightarrow> u32 \<Rightarrow> (nat \<Rightarrow> sensors_data_t) \<Rightarrow> uinput_write list" where
  "mirror_loop new_sensors active filt =
     (if new_sensors \<noteq> 0 then
        (let i = top_bit new_sensors in
         mirror_case i active filt @ mirror_loop (clear_bit new_sensors i) active filt)
      else [])"
  by pat_completeness auto
termination
  by (relation "measure (\<lambda>(new_sensors, active, filt). popcount new_sensors)")
    (auto simp: popcount_clear_top)

declare mirror_loop.simps [simp del]

text \<open>
  The body of the thread's loop for one event that \<^verbatim>\<open>read\<close> returned in full, on the
  thread's local \<^verbatim>\<open>new_sensors\<close> and the control context; the result adds the writes to
  \<^verbatim>\<open>dev->uinput\<close>. \<^verbatim>\<open>active_sensors\<close> is read from the context when the event is read;
  the mirroring loop ends with \<^verbatim>\<open>new_sensors\<close> at 0.
  The \<^verbatim>\<open>break\<close> after a light event leaves the loop over the descriptors; it changes
  which descriptor is read next, not what is done with the event.
\<close>

definition poll_thread_event ::
  "input_event \<Rightarrow> u32 \<times> sensors_control_context_t
     \<Rightarrow> (u32 \<times> sensors_control_context_t) \<times> uinput_write list" where
  "poll_thread_event event st =
     (let new_sensors = fst st; dev = snd st; active = active_sensors dev in
      if 0 \<le> uinput dev then
        (if ev_type event = EV_ABS then
           (let r = thread_abs_event event (new_sensors, filter_sensors dev) in
            ((fst r, dev\<lparr>filter_sensors := snd r\<rparr>), []))
         else if ev_type event = EV_LED then
           (if ev_code event = LED_MISC then
              ((new_sensors OR SENSORS_LIGHT,
                dev\<lparr>filter_sensors := (filter_sensors dev)
                  (ID_L := (filter_sensors dev ID_L)\<lparr>v_x := f32_of_int (sint (ev_value event))\<rparr>)\<rparr>),
               [])
            else ((new_sensors, dev), []))
         else if ev_type event = EV_SYN then
           (let echo = (if ev_code event = SYN_CONFIG \<and> ev_value event = 0
                        then [Write_event event] else [])
            in ((0, dev), echo @ mirror_loop new_sensors active (filter_sensors dev)))
         else ((new_sensors, dev), []))
      else ((new_sensors, dev), []))"

text \<open>The events of a stream, one after the other.\<close>

fun poll_thread_events ::
  "input_event list \<Rightarrow> u32 \<times> sensors_control_context_t
     \<Rightarrow> (u32 \<times> sensors_control_context_t) \<times> uinput_write list" where
  "poll_thread_events [] st = (st, [])"
| "poll_thread_events (event # rest) st =
     (let r = poll_thread_event event st; r' = poll_thread_events rest (fst r)
      in (fst r', snd r @ snd r'))"

section \<open>Properties of \<^verbatim>\<open>control__activate\<close>\<close>

text \<open>
  The error code of a failed system call, as \<^verbatim>\<open>control__activate\<close> records it in
  \<^verbatim>\<open>err\<close>: the negative result of \<^verbatim>\<open>open\<close>, or \<open>-errno\<close> after the \<^verbatim>\<open>ioctl\<close>.
\<close>

fun syscall_error :: "device_env \<Rightarrow> syscall \<Rightarrow> int" where
  "syscall_error env (Sys_open n r) = r"
| "syscall_error env (Sys_ioctl_set_enable fd flags r) = - errno env"
| "syscall_error env (Sys_close fd) = 0"

text \<open>The value of \<^verbatim>\<open>err\<close> after a trace of system calls: the last failure wins.\<close>

definition err_after :: "device_env \<Rightarrow> syscall list \<Rightarrow> int \<Rightarrow> int" where
  "err_after env tr err = fold (\<lambda>c e. if syscall_failed c then syscall_error env c else e) tr err"

text \<open>The system calls issued after the first failed one.\<close>

definition commands_after_failure :: "syscall list \<Rightarrow> syscall list" where
  "commands_after_failure tr = tl (dropWhile (\<lambda>c. \<not> syscall_failed c) tr)"

text \<open>
  What every block of \<^verbatim>\<open>control__activate\<close> keeps: the two masks, the trace so far,
  and \<^verbatim>\<open>err\<close> as the error of the last failure.
\<close>

definition block_ok ::
  "device_env \<Rightarrow> int \<times> sensors_control_context_t \<times> syscall list
     \<Rightarrow> int \<times> sensors_control_context_t \<times> syscall list \<Rightarrow> bool" where
  "block_ok env st st' \<longleftrightarrow>
     active_sensors (fst (snd st')) = active_sensors (fst (snd st)) \<and>
     active_drivers (fst (snd st')) = active_drivers (fst (snd st)) \<and>
     (\<exists>ext. snd (snd st') = snd (snd st) @ ext \<and> fst st' = err_after env ext (fst st))"

definition block_quiet ::
  "int \<times> sensors_control_context_t \<times> syscall list
     \<Rightarrow> int \<times> sensors_control_context_t \<times> syscall list \<Rightarrow> bool" where
  "block_quiet st st' \<longleftrightarrow>
     (\<exists>ext. snd (snd st') = snd (snd st) @ ext \<and> (\<forall>c\<in>set ext. \<not> is_ioctl c))"

lemma block_ok_trans:
  "block_ok env a b \<Longrightarrow> block_ok env b c \<Longrightarrow> block_ok env a c"
  by (auto simp: block_ok_def err_after_def)

lemma activate_lis_ok: "block_ok env st (activate_lis env ch ne st)"
  by (auto simp: block_ok_def activate_lis_def open_dev_def close_dev_def Let_def err_after_def)

lemma activate_sfh_ok: "block_ok env st (activate_sfh env ch ne st)"
  by (auto simp: block_ok_def activate_sfh_def open_dev_def close_dev_def Let_def err_after_def)

lemma activate_akm_ok: "block_ok env st (activate_akm env ch ne st)"
  by (auto simp: block_ok_def activate_akm_def open_dev_def close_dev_def Let_def err_after_def)

lemma blocks_ok:
  "block_ok env st (activate_akm env ch ne (activate_sfh env ch ne (activate_lis env ch ne st)))"
  by (blast intro: block_ok_trans activate_lis_ok activate_sfh_ok activate_akm_ok)

lemma activate_sfh_quiet: "block_quiet st (activate_sfh env ch ne st)"
  by (auto simp: block_quiet_def activate_sfh_def open_dev_def close_dev_def Let_def)

lemma activate_akm_quiet: "block_quiet st (activate_akm env ch ne st)"
  by (auto simp: block_quiet_def activate_akm_def open_dev_def close_dev_def Let_def)

lemma activate_lis_no_ioctl_after_failure:
  "\<forall>c\<in>set (commands_after_failure (snd (snd (activate_lis env ch ne (0, dev, []))))). \<not> is_ioctl c"
  by (auto simp: commands_after_failure_def activate_lis_def open_dev_def close_dev_def Let_def)

lemma set_tl_subset: "x \<in> set (tl xs) \<Longrightarrow> x \<in> set xs"
  by (cases xs) auto

lemma commands_after_failure_append:
  "set (commands_after_failure (tr @ ext)) \<subseteq> set (commands_after_failure tr) \<union> set ext"
proof (cases "\<exists>c\<in>set tr. syscall_failed c")
  case True
  then have "dropWhile (\<lambda>c. \<not> syscall_failed c) tr \<noteq> []"
    by (auto simp: dropWhile_eq_Nil_conv)
  moreover from True have "dropWhile (\<lambda>c. \<not> syscall_failed c) (tr @ ext) = dropWhile (\<lambda>c. \<not> syscall_failed c) tr @ ext"
    by (auto simp: dropWhile_append1)
  ultimately show ?thesis
    by (auto simp: commands_after_failure_def)
next
  case False
  then have "dropWhile (\<lambda>c. \<not> syscall_failed c) (tr @ ext) = dropWhile (\<lambda>c. \<not> syscall_failed c) ext"
    by (simp add: dropWhile_append2)
  then show ?thesis
    using set_dropWhileD [of _ "\<lambda>c. \<not> syscall_failed c" ext]
    by (auto simp: commands_after_failure_def dest!: set_tl_subset)
qed

lemma syscall_error_neg:
  "0 < errno env \<Longrightarrow> syscall_failed c \<Longrightarrow> syscall_error env c < 0"
  by (cases c) auto

lemma err_after_neg:
  "0 < errno env \<Longrightarrow> err_after env tr e < 0 \<longleftrightarrow> (\<exists>c\<in>set tr. syscall_failed c) \<or> e < 0"
proof (induction tr arbitrary: e)
  case Nil
  then show ?case by (simp add: err_after_def)
next
  case (Cons c tr)
  have step: "err_after env (c # tr) e = err_after env tr (if syscall_failed c then syscall_error env c else e)"
    by (simp add: err_after_def)
  show ?case
    unfolding step using Cons.IH [OF Cons.prems] syscall_error_neg [OF Cons.prems, of c]
    by auto
qed

lemma err_after_last:
  "\<exists>c\<in>set tr. syscall_failed c \<Longrightarrow>
     err_after env tr e = syscall_error env (last (filter syscall_failed tr))"
proof (induction tr arbitrary: e)
  case Nil
  then show ?case by simp
next
  case (Cons c tr)
  have step: "err_after env (c # tr) e = err_after env tr (if syscall_failed c then syscall_error env c else e)"
    by (simp add: err_after_def)
  show ?case
  proof (cases "\<exists>c\<in>set tr. syscall_failed c")
    case True
    then have "filter syscall_failed tr \<noteq> []"
      by (auto simp: filter_empty_conv)
    with Cons.IH [OF True] show ?thesis
      unfolding step by simp
  next
    case False
    then have none: "filter syscall_failed tr = []"
      by (auto simp: filter_empty_conv)
    from False have "err_after env tr e' = e'" for e'
      by (induction tr arbitrary: e') (auto simp: err_after_def)
    with Cons.prems False none show ?thesis
      unfolding step by auto
  qed
qed

text \<open>
  The spec's dependency rule: the driver mask is the activation mask, with the bit of
  Acceleration set when the bit of Orientation is set. And the requested activation:
  the old mask with the bit of the handle set or cleared.
\<close>

definition derived_driver_mask :: "u32 \<Rightarrow> u32" where
  "derived_driver_mask a = (if bit a ID_O then set_bit ID_A a else a)"

definition requested_activation :: "u32 \<Rightarrow> nat \<Rightarrow> bool \<Rightarrow> u32" where
  "requested_activation a i on = (if on then set_bit i a else unset_bit i a)"

text \<open>The three blocks of \<^verbatim>\<open>control__activate\<close> in sequence.\<close>

definition activate_blocks ::
  "device_env \<Rightarrow> u32 \<Rightarrow> u32 \<Rightarrow> sensors_control_context_t
     \<Rightarrow> int \<times> sensors_control_context_t \<times> syscall list" where
  "activate_blocks env ch ne dev =
     activate_akm env ch ne (activate_sfh env ch ne (activate_lis env ch ne (0, dev, [])))"

lemma and_single_bit: "(w :: u32) AND push_bit i 1 \<noteq> 0 \<longleftrightarrow> bit w i"
  by (simp add: and_exp_eq_0_iff_not_bit)

lemma new_active_eq:
  "((a :: u32) AND NOT (push_bit i 1)) OR ((if on then push_bit i 1 else 0) AND push_bit i 1)
     = requested_activation a i on"
  by (auto simp: requested_activation_def bit_eq_iff bit_simps)

lemma new_enabled_eq:
  "(if (a :: u32) AND SENSORS_ORIENTATION \<noteq> 0 then a OR SENSORS_ACCELERATION else a)
     = derived_driver_mask a"
  unfolding derived_driver_mask_def SENSORS_ORIENTATION_def SENSORS_ACCELERATION_def and_single_bit
  by (simp add: set_bit_eq_or)

lemma activate_blocks_ok: "block_ok env (0, dev, []) (activate_blocks env ch ne dev)"
  unfolding activate_blocks_def by (rule blocks_ok)

lemma activate_blocks_no_ioctl_after_failure:
  "\<forall>c\<in>set (commands_after_failure (snd (snd (activate_blocks env ch ne dev)))). \<not> is_ioctl c"
proof -
  define s1 where "s1 = activate_lis env ch ne (0, dev, [])"
  define s2 where "s2 = activate_sfh env ch ne s1"
  define s3 where "s3 = activate_akm env ch ne s2"
  obtain e2 where e2: "snd (snd s2) = snd (snd s1) @ e2" "\<forall>c\<in>set e2. \<not> is_ioctl c"
    using activate_sfh_quiet [of s1 env ch ne] by (auto simp: block_quiet_def s2_def)
  obtain e3 where e3: "snd (snd s3) = snd (snd s2) @ e3" "\<forall>c\<in>set e3. \<not> is_ioctl c"
    using activate_akm_quiet [of s2 env ch ne] by (auto simp: block_quiet_def s3_def)
  have 1: "\<forall>c\<in>set (commands_after_failure (snd (snd s1))). \<not> is_ioctl c"
    unfolding s1_def by (rule activate_lis_no_ioctl_after_failure)
  have 2: "\<forall>c\<in>set (commands_after_failure (snd (snd s2))). \<not> is_ioctl c"
    using 1 e2 commands_after_failure_append [of "snd (snd s1)" e2] by auto
  have 3: "\<forall>c\<in>set (commands_after_failure (snd (snd s3))). \<not> is_ioctl c"
    using 2 e3 commands_after_failure_append [of "snd (snd s2)" e3] by auto
  then show ?thesis by (simp add: activate_blocks_def s1_def s2_def s3_def)
qed

lemma control__activate_invalid:
  "handle < 0 \<or> 6 \<le> handle \<Longrightarrow> control__activate env dev handle enabled = (- 1, dev, [])"
  by (auto simp: control__activate_def SENSORS_HANDLE_BASE_def MAX_NUM_SENSORS_def)

lemma control__activate_valid:
  assumes "0 \<le> handle" "handle < 6"
  shows "control__activate env dev handle enabled =
    (let na = requested_activation (active_sensors dev) (nat handle) (enabled \<noteq> 0);
         ne = derived_driver_mask na;
         ch = active_drivers dev XOR ne;
         st = activate_blocks env ch ne dev
     in if ch \<noteq> 0 then
          (if fst st < 0 then (fst st, fst (snd st), snd (snd st))
           else (0, (fst (snd st))\<lparr>active_sensors := na, active_drivers := ne\<rparr>, snd (snd st)))
        else (0, dev\<lparr>active_sensors := na, active_drivers := ne\<rparr>, []))"
  using assms
  unfolding control__activate_def Let_def new_enabled_eq activate_blocks_def
  by (simp add: SENSORS_HANDLE_BASE_def MAX_NUM_SENSORS_def
      new_active_eq [of _ _ "enabled \<noteq> 0", simplified])

lemma control__activate_cases:
  assumes "control__activate env dev handle enabled = (r, dev', tr)"
  shows "(handle < 0 \<or> 6 \<le> handle) \<and> r = - 1 \<and> dev' = dev \<and> tr = []
    \<or> (0 \<le> handle \<and> handle < 6 \<and> r = err_after env tr 0 \<and> r < 0
         \<and> active_sensors dev' = active_sensors dev \<and> active_drivers dev' = active_drivers dev)
    \<or> (0 \<le> handle \<and> handle < 6 \<and> r = 0 \<and> \<not> err_after env tr 0 < 0
         \<and> active_sensors dev' = requested_activation (active_sensors dev) (nat handle) (enabled \<noteq> 0)
         \<and> active_drivers dev' = derived_driver_mask (active_sensors dev'))"
proof (cases "handle < 0 \<or> 6 \<le> handle")
  case True
  with assms show ?thesis
    by (simp add: control__activate_invalid)
next
  case False
  then have range: "0 \<le> handle" "handle < 6"
    by auto
  define na where "na = requested_activation (active_sensors dev) (nat handle) (enabled \<noteq> 0)"
  define ne where "ne = derived_driver_mask na"
  define ch where "ch = active_drivers dev XOR ne"
  define st where "st = activate_blocks env ch ne dev"
  have ok: "block_ok env (0, dev, []) st"
    unfolding st_def by (rule activate_blocks_ok)
  have unfold: "control__activate env dev handle enabled =
      (if ch \<noteq> 0 then
         (if fst st < 0 then (fst st, fst (snd st), snd (snd st))
          else (0, (fst (snd st))\<lparr>active_sensors := na, active_drivers := ne\<rparr>, snd (snd st)))
       else (0, dev\<lparr>active_sensors := na, active_drivers := ne\<rparr>, []))"
    unfolding control__activate_valid [OF range] Let_def na_def ne_def ch_def st_def ..
  from ok have masks: "active_sensors (fst (snd st)) = active_sensors dev"
      "active_drivers (fst (snd st)) = active_drivers dev"
    and err: "fst st = err_after env (snd (snd st)) 0"
    by (auto simp: block_ok_def)
  show ?thesis
  proof (cases "ch \<noteq> 0")
    case True
    show ?thesis
    proof (cases "fst st < 0")
      case neg: True
      from assms have "r = fst st" "dev' = fst (snd st)" "tr = snd (snd st)"
        unfolding unfold using True neg by simp_all
      with masks err neg range show ?thesis by simp
    next
      case nonneg: False
      from assms have "r = 0"
        "dev' = (fst (snd st))\<lparr>active_sensors := na, active_drivers := ne\<rparr>" "tr = snd (snd st)"
        unfolding unfold using True nonneg by simp_all
      with err nonneg range show ?thesis by (simp add: na_def ne_def)
    qed
  next
    case False
    from assms have "r = 0" "dev' = dev\<lparr>active_sensors := na, active_drivers := ne\<rparr>" "tr = []"
      unfolding unfold using False by simp_all
    with range show ?thesis by (simp add: na_def ne_def err_after_def)
  qed
qed

lemma control__activate_no_ioctl_after_failure:
  "\<forall>c\<in>set (commands_after_failure (snd (snd (control__activate env dev handle enabled)))). \<not> is_ioctl c"
proof (cases "handle < 0 \<or> 6 \<le> handle")
  case True
  then show ?thesis
    by (simp add: control__activate_invalid commands_after_failure_def)
next
  case False
  then have range: "0 \<le> handle" "handle < 6"
    by auto
  show ?thesis
    unfolding control__activate_valid [OF range] Let_def
    using activate_blocks_no_ioctl_after_failure
    by (simp add: commands_after_failure_def)
qed

text \<open>Two operating-system behaviours used in the examples below.\<close>

definition env_ok :: device_env where
  "env_ok = \<lparr>open_result = (\<lambda>n. 3 + int n), ioctl_result = 0, errno = 0\<rparr>"

definition env_ioctl_fails :: device_env where
  "env_ioctl_fails = \<lparr>open_result = (\<lambda>n. if n = ID_LIS then 3 else - 1), ioctl_result = - 1, errno = 5\<rparr>"

text \<open>
  Claim C1, as the code has it. When a system call of \<^verbatim>\<open>control__activate\<close> fails (an
  \<^verbatim>\<open>open\<close> of a device, or the accelerometer's enable \<^verbatim>\<open>ioctl\<close>) and \<^verbatim>\<open>errno\<close> is
  positive, the call returns a negative error code: that of the last system call that
  failed in the call. No enable \<^verbatim>\<open>ioctl\<close> is issued after the failure; the handles of
  the other changed devices may still be opened and closed.
\<close>

theorem activate_failure_result:
  assumes "0 < errno env"
    and "control__activate env dev handle enabled = (r, dev', tr)"
    and "\<exists>c\<in>set tr. syscall_failed c"
  shows "r < 0 \<and> r = syscall_error env (last (filter syscall_failed tr)) \<and>
         (\<forall>c\<in>set (commands_after_failure tr). \<not> is_ioctl c)"
proof -
  from assms(3) have ne: "tr \<noteq> []" by auto
  from assms(1,3) have neg: "err_after env tr 0 < 0"
    by (simp add: err_after_neg)
  from control__activate_cases [OF assms(2)] ne neg have r: "r = err_after env tr 0" "r < 0"
    by auto
  have "\<forall>c\<in>set (commands_after_failure tr). \<not> is_ioctl c"
    using control__activate_no_ioctl_after_failure [of env dev handle enabled] assms(2) by simp
  with r err_after_last [OF assms(3)] show ?thesis by simp
qed

lemma tr_example: "snd (snd (control__activate env_ioctl_fails control_init 2 1)) =
      [Sys_open 0 3, Sys_ioctl_set_enable 3 1 (- 1), Sys_open 1 (- 1)]"
    by code_simp


theorem activate_failure_result_witness:
  "0 < errno env_ioctl_fails \<and>
   (\<exists>c\<in>set (snd (snd (control__activate env_ioctl_fails control_init 2 1))). syscall_failed c) \<and>
   fst (control__activate env_ioctl_fails control_init 2 1) < 0 \<and>
   fst (control__activate env_ioctl_fails control_init 2 1) =
     syscall_error env_ioctl_fails (last (filter syscall_failed
       (snd (snd (control__activate env_ioctl_fails control_init 2 1)))))"
proof -
  have e: "0 < errno env_ioctl_fails"
    by (simp add: env_ioctl_fails_def)
  have f: "\<exists>c\<in>set (snd (snd (control__activate env_ioctl_fails control_init 2 1))). syscall_failed c"
    unfolding tr_example by simp
  from activate_failure_result [OF e _ f, of control_init 2 1
      "fst (control__activate env_ioctl_fails control_init 2 1)"
      "fst (snd (control__activate env_ioctl_fails control_init 2 1))"] e f
  show ?thesis by simp
qed

text \<open>
  Claim C1 as stated fails: enabling Orientation on the initial context changes the
  accelerometer and the compass driver; after the accelerometer's \<^verbatim>\<open>ioctl\<close> has failed
  with \<^verbatim>\<open>errno\<close> 5 the call goes on to open the compass device, and when that fails too
  the call returns the compass' \<open>-1\<close>, not the accelerometer's \<open>-5\<close>.
\<close>

theorem activate_abort_counterexample:
  "snd (snd (control__activate env_ioctl_fails control_init 2 1)) =
     [Sys_open ID_LIS 3, Sys_ioctl_set_enable 3 1 (- 1), Sys_open ID_AKM (- 1)] \<and>
   commands_after_failure (snd (snd (control__activate env_ioctl_fails control_init 2 1))) =
     [Sys_open ID_AKM (- 1)] \<and>
   fst (control__activate env_ioctl_fails control_init 2 1) = - 1 \<and>
   - errno env_ioctl_fails = - 5"
  by code_simp

text \<open>The handles that \<^verbatim>\<open>control__activate\<close> accepts.\<close>

definition handle_valid :: "int \<Rightarrow> bool" where
  "handle_valid handle \<longleftrightarrow>
     SENSORS_HANDLE_BASE \<le> handle \<and> handle < SENSORS_HANDLE_BASE + int MAX_NUM_SENSORS"

text \<open>
  Claim C3. If any system call of the transition fails, \<^verbatim>\<open>control__activate\<close> returns a
  negative value and leaves \<^verbatim>\<open>active_sensors\<close> and \<^verbatim>\<open>active_drivers\<close> as they were; a
  call that changes either mask returned 0 and saw no failure; and a call with a valid
  handle and no failure commits the requested activation and the derived driver mask.
\<close>

theorem activate_commit:
  assumes "0 < errno env"
    and "control__activate env dev handle enabled = (r, dev', tr)"
  shows "((\<exists>c\<in>set tr. syscall_failed c) \<longrightarrow>
            r < 0 \<and> active_sensors dev' = active_sensors dev \<and>
            active_drivers dev' = active_drivers dev) \<and>
         (active_sensors dev' \<noteq> active_sensors dev \<or> active_drivers dev' \<noteq> active_drivers dev \<longrightarrow>
            r = 0 \<and> (\<forall>c\<in>set tr. \<not> syscall_failed c)) \<and>
         (handle_valid handle \<and> (\<forall>c\<in>set tr. \<not> syscall_failed c) \<longrightarrow>
            r = 0 \<and>
            active_sensors dev' =
              requested_activation (active_sensors dev) (nat handle) (enabled \<noteq> 0) \<and>
            active_drivers dev' = derived_driver_mask (active_sensors dev'))"
proof -
  have neg: "err_after env tr 0 < 0 \<longleftrightarrow> (\<exists>c\<in>set tr. syscall_failed c)"
    using err_after_neg [OF assms(1), of tr 0] by simp
  from control__activate_cases [OF assms(2)]
  consider (invalid) "handle < 0 \<or> 6 \<le> handle" "r = - 1" "dev' = dev" "tr = []"
    | (failed) "0 \<le> handle" "handle < 6" "r < 0" "err_after env tr 0 < 0"
        "active_sensors dev' = active_sensors dev" "active_drivers dev' = active_drivers dev"
    | (committed) "0 \<le> handle" "handle < 6" "r = 0" "\<not> err_after env tr 0 < 0"
        "active_sensors dev' = requested_activation (active_sensors dev) (nat handle) (enabled \<noteq> 0)"
        "active_drivers dev' = derived_driver_mask (active_sensors dev')"
    by auto
  then show ?thesis
  proof cases
    case invalid
    then show ?thesis
      by (auto simp: handle_valid_def SENSORS_HANDLE_BASE_def MAX_NUM_SENSORS_def)
  next
    case failed
    with neg show ?thesis by auto
  next
    case committed
    with neg show ?thesis by auto
  qed
qed

theorem activate_commit_witness:
  "0 < errno env_ioctl_fails \<and>
   (\<exists>c\<in>set (snd (snd (control__activate env_ioctl_fails control_init 2 1))). syscall_failed c) \<and>
   fst (control__activate env_ioctl_fails control_init 2 1) < 0 \<and>
   active_sensors (fst (snd (control__activate env_ioctl_fails control_init 2 1))) =
     active_sensors control_init \<and>
   active_drivers (fst (snd (control__activate env_ioctl_fails control_init 2 1))) =
     active_drivers control_init"
proof -
  have e: "0 < errno env_ioctl_fails"
    by (simp add: env_ioctl_fails_def)
  have f: "\<exists>c\<in>set (snd (snd (control__activate env_ioctl_fails control_init 2 1))). syscall_failed c"
    unfolding tr_example by simp
  from activate_commit [OF e, of control_init 2 1
      "fst (control__activate env_ioctl_fails control_init 2 1)"
      "fst (snd (control__activate env_ioctl_fails control_init 2 1))"
      "snd (snd (control__activate env_ioctl_fails control_init 2 1))"] e f
  show ?thesis by simp
qed


text \<open>
  Claim C4. After a successful \<^verbatim>\<open>control__activate\<close> the driver mask is the new activation
  mask with the bit of Acceleration set whenever the bit of Orientation is set. Enabling
  Orientation gives a driver mask with both bits; disabling it clears the bit of
  Orientation and leaves the bit of Acceleration set exactly when Acceleration is itself
  active.
\<close>

theorem activate_driver_mask:
  assumes "control__activate env dev handle enabled = (0, dev', tr)"
  shows "active_sensors dev' =
           requested_activation (active_sensors dev) (nat handle) (enabled \<noteq> 0) \<and>
         active_drivers dev' = derived_driver_mask (active_sensors dev') \<and>
         (handle = SENSORS_HANDLE_BASE + int ID_O \<and> enabled \<noteq> 0 \<longrightarrow>
            bit (active_drivers dev') ID_O \<and> bit (active_drivers dev') ID_A) \<and>
         (handle = SENSORS_HANDLE_BASE + int ID_O \<and> enabled = 0 \<longrightarrow>
            \<not> bit (active_drivers dev') ID_O \<and>
            (bit (active_drivers dev') ID_A \<longleftrightarrow> bit (active_sensors dev) ID_A))"
proof -
  from control__activate_cases [OF assms]
  have a: "active_sensors dev' =
      requested_activation (active_sensors dev) (nat handle) (enabled \<noteq> 0)"
    and d: "active_drivers dev' = derived_driver_mask (active_sensors dev')"
    by auto
  have on: "bit (active_drivers dev') ID_O \<and> bit (active_drivers dev') ID_A"
    if "handle = SENSORS_HANDLE_BASE + int ID_O" "enabled \<noteq> 0"
    unfolding d a using that
    by (simp add: derived_driver_mask_def requested_activation_def SENSORS_HANDLE_BASE_def
        ID_O_def ID_A_def bit_simps)
  have off: "\<not> bit (active_drivers dev') ID_O \<and>
      (bit (active_drivers dev') ID_A \<longleftrightarrow> bit (active_sensors dev) ID_A)"
    if "handle = SENSORS_HANDLE_BASE + int ID_O" "enabled = 0"
    unfolding d a using that
    by (simp add: derived_driver_mask_def requested_activation_def SENSORS_HANDLE_BASE_def
        ID_O_def ID_A_def bit_simps)
  from a d on off show ?thesis by blast
qed

lemma ok_example: "fst (control__activate env_ok control_init 2 1) = 0"
  by code_simp

theorem activate_driver_mask_witness:
  "control__activate env_ok control_init 2 1 =
     (0, snd (control__activate env_ok control_init 2 1)) \<and>
   2 = SENSORS_HANDLE_BASE + int ID_O \<and>
   bit (active_drivers (fst (snd (control__activate env_ok control_init 2 1)))) ID_O \<and>
   bit (active_drivers (fst (snd (control__activate env_ok control_init 2 1)))) ID_A \<and>
   \<not> bit (active_sensors (fst (snd (control__activate env_ok control_init 2 1)))) ID_A"
proof -
  have r: "control__activate env_ok control_init 2 1 =
      (0, fst (snd (control__activate env_ok control_init 2 1)),
       snd (snd (control__activate env_ok control_init 2 1)))"
    using ok_example by (metis prod.collapse)
  have h: "2 = SENSORS_HANDLE_BASE + int ID_O"
    by (simp add: SENSORS_HANDLE_BASE_def ID_O_def)
  have n: "\<not> bit (active_sensors (fst (snd (control__activate env_ok control_init 2 1)))) ID_A"
    by code_simp
  have r0: "control__activate env_ok control_init 2 1 =
      (0, snd (control__activate env_ok control_init 2 1))"
    using ok_example by (metis prod.collapse)
  have one: "(1 :: int) \<noteq> 0"
    by simp
  from activate_driver_mask [OF r] h one
  have b: "bit (active_drivers (fst (snd (control__activate env_ok control_init 2 1)))) ID_O \<and>
      bit (active_drivers (fst (snd (control__activate env_ok control_init 2 1)))) ID_A"
    by blast
  from r0 h b n show ?thesis by blast
qed

text \<open>
  Claim C8, as the code has it. When a call that enables a sensor has succeeded, a second
  call that enables the same sensor issues no system call at all, returns 0 and leaves
  the context as it is, whatever the devices would answer.
\<close>

theorem activate_repeated_enable:
  assumes "control__activate env dev handle enabled = (0, dev', tr)"
    and "enabled \<noteq> 0" and "enabled' \<noteq> 0"
  shows "control__activate env' dev' handle enabled' = (0, dev', [])"
proof -
  from control__activate_cases [OF assms(1)] assms(2)
  have range: "0 \<le> handle" "handle < 6"
    and a: "active_sensors dev' = set_bit (nat handle) (active_sensors dev)"
    and d: "active_drivers dev' = derived_driver_mask (active_sensors dev')"
    by (auto simp: requested_activation_def)
  have again: "requested_activation (active_sensors dev') (nat handle) (enabled' \<noteq> 0)
      = active_sensors dev'"
    using assms(3) unfolding a by (simp add: requested_activation_def bit_eq_iff bit_simps)
  show ?thesis
    unfolding control__activate_valid [OF range] Let_def again
    by (simp add: d [symmetric])
qed

lemma ok_example2: "fst (control__activate env_ok control_init 0 1) = 0"
  by code_simp

theorem activate_repeated_enable_witness:
  "fst (control__activate env_ok control_init 0 1) = 0 \<and>
   control__activate env_ioctl_fails (fst (snd (control__activate env_ok control_init 0 1))) 0 1 =
     (0, fst (snd (control__activate env_ok control_init 0 1)), [])"
proof -
  have r: "control__activate env_ok control_init 0 1 =
      (0, fst (snd (control__activate env_ok control_init 0 1)),
       snd (snd (control__activate env_ok control_init 0 1)))"
    using ok_example2 by (metis prod.collapse)
  from activate_repeated_enable [OF r, where enabled' = 1 and env' = env_ioctl_fails] ok_example2
  show ?thesis by simp
qed

text \<open>
  Claim C8 as stated fails when the first call fails: the masks are not committed, and
  the second call issues the accelerometer's enable \<^verbatim>\<open>ioctl\<close> again.
\<close>

theorem activate_repeated_enable_counterexample:
  "fst (control__activate env_ioctl_fails control_init 0 1) = - 5 \<and>
   snd (snd (control__activate env_ioctl_fails control_init 0 1)) =
     [Sys_open ID_LIS 3, Sys_ioctl_set_enable 3 1 (- 1)] \<and>
   snd (snd (control__activate env_ioctl_fails
      (fst (snd (control__activate env_ioctl_fails control_init 0 1))) 0 1)) =
     [Sys_ioctl_set_enable 3 1 (- 1)]"
  by code_simp

section \<open>Properties of the delivery path\<close>

lemma top_bit_unique:
  assumes "bit w i" and "\<And>j. i < j \<Longrightarrow> \<not> bit w j"
  shows "top_bit w = i"
proof -
  from assms(1) have nz: "w \<noteq> 0" by auto
  have "\<not> top_bit w < i"
    using top_bit_highest [OF nz, of i] assms(1) by blast
  moreover have "\<not> i < top_bit w"
    using assms(2) [of "top_bit w"] top_bit_set [OF nz] by blast
  ultimately show ?thesis by simp
qed

lemma and_push_bit_ne_0: "(w :: u32) AND push_bit i 1 \<noteq> 0 \<longleftrightarrow> bit w i"
  by (simp add: and_exp_eq_0_iff_not_bit)

lemma pick_sensor_loop_spec:
  "pick_sensor_loop msk dev values =
     (if pendingSensors dev AND msk = 0 then (- 1, values, dev)
      else (let i = top_bit (pendingSensors dev AND msk) in
            (int i, (sensors dev i)\<lparr>sensor := 2 ^ i\<rparr>,
             dev\<lparr>pendingSensors := clear_bit (pendingSensors dev) i\<rparr>)))"
proof (induction msk dev "values" rule: pick_sensor_loop.induct)
  case (1 msk dev vals)
  show ?case
  proof (cases "msk = 0")
    case True
    then show ?thesis
      by (subst pick_sensor_loop.simps) simp
  next
    case nz: False
    define i where "i = top_bit msk"
    show ?thesis
    proof (cases "bit (pendingSensors dev) i")
      case True
      have "bit (pendingSensors dev AND msk) i"
        using True top_bit_set [OF nz] by (simp add: i_def bit_simps)
      moreover have "\<not> bit (pendingSensors dev AND msk) j" if "i < j" for j
        using top_bit_highest [OF nz, of j] that by (simp add: i_def bit_simps)
      ultimately have top: "top_bit (pendingSensors dev AND msk) = i"
        by (rule top_bit_unique)
      from \<open>bit (pendingSensors dev AND msk) i\<close> have "pendingSensors dev AND msk \<noteq> 0"
        by auto
      with True nz top show ?thesis
        by (subst pick_sensor_loop.simps) (simp add: Let_def i_def and_exp_eq_0_iff_not_bit)
    next
      case False
      have same: "pendingSensors dev AND clear_bit msk i = pendingSensors dev AND msk"
        using False by (intro bit_eqI) (auto simp: bit_simps bit_clear_bit)
      have "pick_sensor_loop msk dev vals = pick_sensor_loop (clear_bit msk i) dev vals"
        using nz False
        by (subst pick_sensor_loop.simps) (simp add: Let_def i_def and_exp_eq_0_iff_not_bit)
      also have "\<dots> = (if pendingSensors dev AND clear_bit msk i = 0 then (- 1, vals, dev)
          else (let k = top_bit (pendingSensors dev AND clear_bit msk i) in
            (int k, (sensors dev k)\<lparr>sensor := 2 ^ k\<rparr>,
             dev\<lparr>pendingSensors := clear_bit (pendingSensors dev) k\<rparr>)))"
        using "1.IH" [of i "clear_bit msk i"] nz False
        by (simp add: i_def and_exp_eq_0_iff_not_bit)
      finally show ?thesis
        unfolding same .
    qed
  qed
qed

lemma stamp_time_spec:
  "stamp_time ns t sens = (\<lambda>i. if bit ns i then (sens i)\<lparr>time := t\<rparr> else sens i)"
proof (induction ns t sens rule: stamp_time.induct)
  case (1 ns t sens)
  show ?case
  proof (cases "ns = 0")
    case True
    then show ?thesis
      by (subst stamp_time.simps) auto
  next
    case nz: False
    have "stamp_time ns t sens =
        stamp_time (clear_bit ns (top_bit ns)) t (sens(top_bit ns := (sens (top_bit ns))\<lparr>time := t\<rparr>))"
      using nz by (subst stamp_time.simps) (simp add: Let_def)
    also have "\<dots> = (\<lambda>k. if bit (clear_bit ns (top_bit ns)) k
        then ((sens(top_bit ns := (sens (top_bit ns))\<lparr>time := t\<rparr>)) k)\<lparr>time := t\<rparr>
        else (sens(top_bit ns := (sens (top_bit ns))\<lparr>time := t\<rparr>)) k)"
      by (rule "1.IH" [OF nz refl])
    also have "\<dots> = (\<lambda>k. if bit ns k then (sens k)\<lparr>time := t\<rparr> else sens k)"
      using top_bit_set [OF nz] by (auto simp: bit_clear_bit fun_eq_iff)
    finally show ?thesis .
  qed
qed

text \<open>
  The pending identities in descending order of their ordinals, and the return values of
  \<open>n\<close> calls of \<^verbatim>\<open>data__poll\<close> in a row, each on the context, the sample buffer and the
  stream that the call before left.
\<close>

definition pending_desc :: "u32 \<Rightarrow> nat list" where
  "pending_desc p = filter (bit p) (rev [0..<MAX_NUM_SENSORS])"

fun poll_times ::
  "nat \<Rightarrow> sensors_data_context_t \<Rightarrow> sensors_data_t \<Rightarrow> input_event list
     \<Rightarrow> int list \<times> sensors_data_context_t" where
  "poll_times 0 dev values stream = ([], dev)"
| "poll_times (Suc n) dev values stream =
     (let r = data__poll dev values stream;
          rs = poll_times n (fst (snd (snd r))) (fst (snd r)) (snd (snd (snd r)))
      in (fst r # fst rs, snd rs))"

lemma SUPPORTED_SENSORS_mask: "SUPPORTED_SENSORS = mask 6"
  by (simp add: SUPPORTED_SENSORS_def MAX_NUM_SENSORS_def mask_eq_exp_minus_1)

lemma bit_SUPPORTED_SENSORS: "bit SUPPORTED_SENSORS j \<longleftrightarrow> j < 6"
  by (auto simp: SUPPORTED_SENSORS_mask bit_simps)

lemma word32_eq_0_iff: "(w :: u32) = 0 \<longleftrightarrow> (\<forall>k. \<not> bit w k)"
proof
  assume "w = 0"
  then show "\<forall>k. \<not> bit w k" by simp
next
  assume "\<forall>k. \<not> bit w k"
  then show "w = 0" by (intro bit_eqI) simp
qed

lemma within_supported:
  "p AND NOT SUPPORTED_SENSORS = 0 \<longleftrightarrow> (\<forall>j. bit p j \<longrightarrow> j < 6)"
proof -
  have len: "bit p j \<Longrightarrow> j < 32" for j
    using bit_imp_le_length [of p j] by simp
  have "p AND NOT SUPPORTED_SENSORS = 0 \<longleftrightarrow> (\<forall>j. \<not> bit (p AND NOT SUPPORTED_SENSORS) j)"
    by (rule word32_eq_0_iff)
  also have "\<dots> \<longleftrightarrow> (\<forall>j. bit p j \<longrightarrow> j < 6)"
    using len by (auto simp: bit_simps bit_SUPPORTED_SENSORS)
  finally show ?thesis .
qed

lemma popcount_eq_0: "popcount w = 0 \<longleftrightarrow> w = 0"
proof -
  have "popcount w = 0 \<longleftrightarrow> {k. bit w k} = {}"
    by (simp add: popcount_card finite_bits)
  also have "\<dots> \<longleftrightarrow> (\<forall>k. \<not> bit w k)"
    by auto
  also have "\<dots> \<longleftrightarrow> w = 0"
    by (simp add: word32_eq_0_iff)
  finally show ?thesis .
qed

lemma popcount_clear_bit_Suc:
  assumes "bit w i"
  shows "Suc (popcount (clear_bit w i)) = popcount w"
proof -
  have "{k. bit (clear_bit w i) k} = {k. bit w k} - {i}"
    by (auto simp: bit_clear_bit)
  then have "popcount (clear_bit w i) = card ({k. bit w k} - {i})"
    by (simp add: popcount_card)
  also have "\<dots> = popcount w - 1"
    using assms by (simp add: popcount_card finite_bits)
  finally show ?thesis
    using popcount_clear_bit [OF assms] by simp
qed

lemma filter_bits_top:
  assumes "p \<noteq> 0" and "\<And>j. bit p j \<Longrightarrow> j < n"
  shows "filter (bit p) (rev [0..<n]) =
    top_bit p # filter (bit (clear_bit p (top_bit p))) (rev [0..<n])"
  using assms(2)
proof (induction n)
  case 0
  then have "\<forall>k. \<not> bit p k"
    by auto
  then have "p = 0"
    by (simp add: word32_eq_0_iff)
  with assms(1) show ?case
    by simp
next
  case (Suc n)
  show ?case
  proof (cases "bit p n")
    case True
    have "\<not> bit p j" if "n < j" for j
      using Suc.prems [of j] that by auto
    with True have top: "top_bit p = n"
      by (intro top_bit_unique)
    have "filter (bit (clear_bit p n)) (rev [0..<n]) = filter (bit p) (rev [0..<n])"
      by (rule filter_cong) (auto simp: bit_clear_bit)
    moreover have "\<not> bit (clear_bit p n) n"
      by (simp add: bit_clear_bit)
    ultimately show ?thesis
      using True top by simp
  next
    case False
    have "bit p j \<Longrightarrow> j < n" for j
      using Suc.prems [of j] False by (cases "j = n") auto
    moreover have "\<not> bit (clear_bit p (top_bit p)) n"
      using False by (simp add: bit_clear_bit)
    ultimately show ?thesis
      using Suc.IH False by simp
  qed
qed

lemma pending_desc_top:
  "p \<noteq> 0 \<Longrightarrow> p AND NOT SUPPORTED_SENSORS = 0 \<Longrightarrow>
     pending_desc p = top_bit p # pending_desc (clear_bit p (top_bit p))"
  unfolding pending_desc_def MAX_NUM_SENSORS_def
  by (rule filter_bits_top) (auto simp: within_supported)

lemma pending_desc_descending: "sorted_wrt (>) (pending_desc p)"
  unfolding pending_desc_def
  by (rule sorted_wrt_filter) (simp add: sorted_wrt_rev sorted_wrt_upt flip: rev_rev_ident)

lemma pick_sensor_pending:
  assumes "pendingSensors dev AND SUPPORTED_SENSORS \<noteq> 0"
  shows "pick_sensor dev values =
    (int (top_bit (pendingSensors dev AND SUPPORTED_SENSORS)),
     (sensors dev (top_bit (pendingSensors dev AND SUPPORTED_SENSORS)))
       \<lparr>sensor := 2 ^ top_bit (pendingSensors dev AND SUPPORTED_SENSORS)\<rparr>,
     dev\<lparr>pendingSensors :=
       clear_bit (pendingSensors dev) (top_bit (pendingSensors dev AND SUPPORTED_SENSORS))\<rparr>)"
  using assms by (simp add: pick_sensor_def pick_sensor_loop_spec Let_def)

lemma pick_sensor_none:
  "pendingSensors dev AND SUPPORTED_SENSORS = 0 \<Longrightarrow> pick_sensor dev values = (- 1, values, dev)"
  by (simp add: pick_sensor_def pick_sensor_loop_spec)

lemma top_bit_pending_supported:
  assumes "p AND SUPPORTED_SENSORS \<noteq> 0"
  shows "top_bit (p AND SUPPORTED_SENSORS) < 6"
    and "bit p (top_bit (p AND SUPPORTED_SENSORS))"
    and "j < 6 \<Longrightarrow> top_bit (p AND SUPPORTED_SENSORS) < j \<Longrightarrow> \<not> bit p j"
proof -
  from top_bit_set [OF assms]
  show "top_bit (p AND SUPPORTED_SENSORS) < 6" "bit p (top_bit (p AND SUPPORTED_SENSORS))"
    by (simp_all add: bit_simps bit_SUPPORTED_SENSORS)
  show "\<not> bit p j" if "j < 6" "top_bit (p AND SUPPORTED_SENSORS) < j"
    using top_bit_highest [OF assms that(2)] that(1)
    by (simp add: bit_simps bit_SUPPORTED_SENSORS)
qed

lemma data__poll_pending:
  assumes "0 \<le> events_fd dev" and "pendingSensors dev AND SUPPORTED_SENSORS \<noteq> 0"
  shows "data__poll dev values stream =
    (int (top_bit (pendingSensors dev AND SUPPORTED_SENSORS)),
     (sensors dev (top_bit (pendingSensors dev AND SUPPORTED_SENSORS)))
       \<lparr>sensor := 2 ^ top_bit (pendingSensors dev AND SUPPORTED_SENSORS)\<rparr>,
     dev\<lparr>pendingSensors :=
       clear_bit (pendingSensors dev) (top_bit (pendingSensors dev AND SUPPORTED_SENSORS))\<rparr>,
     stream)"
proof -
  from assms(2) have "pendingSensors dev \<noteq> 0"
    by auto
  with assms show ?thesis
    by (simp add: data__poll_def Let_def pick_sensor_pending)
qed

lemma poll_times_pending:
  assumes "0 \<le> events_fd dev" and "pendingSensors dev AND NOT SUPPORTED_SENSORS = 0"
    and "popcount (pendingSensors dev) = n"
  shows "fst (poll_times n dev values stream) = map int (pending_desc (pendingSensors dev)) \<and>
         pendingSensors (snd (poll_times n dev values stream)) = 0"
  using assms
proof (induction n arbitrary: dev "values")
  case 0
  then have "pendingSensors dev = 0"
    by (simp add: popcount_eq_0)
  then show ?case
    by (simp add: pending_desc_def)
next
  case (Suc n)
  define p where "p = pendingSensors dev"
  from Suc.prems(3) have nz: "p \<noteq> 0"
    using popcount_eq_0 [of p] by (auto simp: p_def)
  have sub: "p AND SUPPORTED_SENSORS = p"
    using Suc.prems(2) unfolding p_def within_supported
    by (intro bit_eqI) (auto simp: bit_simps bit_SUPPORTED_SENSORS)
  define i where "i = top_bit p"
  define dev' where "dev' = dev\<lparr>pendingSensors := clear_bit p i\<rparr>"
  have poll: "data__poll dev vals stream = (int i, (sensors dev i)\<lparr>sensor := 2 ^ i\<rparr>, dev', stream)"
    for vals
    using data__poll_pending [of dev vals stream] Suc.prems(1) nz sub
    by (simp add: p_def i_def dev'_def)
  have fd': "0 \<le> events_fd dev'"
    using Suc.prems(1) by (simp add: dev'_def)
  have sub': "pendingSensors dev' AND NOT SUPPORTED_SENSORS = 0"
    using Suc.prems(2) unfolding within_supported
    by (auto simp: dev'_def bit_clear_bit p_def)
  have cnt': "popcount (pendingSensors dev') = n"
    using popcount_clear_bit_Suc [OF top_bit_set [OF nz]] Suc.prems(3)
    by (simp add: dev'_def i_def p_def)
  have desc: "pending_desc p = i # pending_desc (pendingSensors dev')"
    using pending_desc_top [OF nz] Suc.prems(2) by (simp add: p_def i_def dev'_def)
  from Suc.IH [OF fd' sub' cnt'] poll desc show ?case
    by (simp add: Let_def p_def)
qed

text \<open>
  Claim C5. On an open data device with a pending sensor identity, \<^verbatim>\<open>data__poll\<close> takes the
  pending branch: it returns what \<^verbatim>\<open>pick_sensor\<close> returns, the ordinal \<open>i\<close> of the
  highest pending identity and its sample stamped with \<^verbatim>\<open>1<<i\<close>; the bit \<open>i\<close> was set in
  \<^verbatim>\<open>pendingSensors\<close> at the call, and it is the only bit cleared; no event is read. When
  \<^verbatim>\<open>pendingSensors\<close> holds identity bits only, as many calls as bits are pending return the
  pending identities in strictly descending order and leave \<^verbatim>\<open>pendingSensors\<close> empty.
\<close>

theorem poll_returns_highest_pending:
  assumes "0 \<le> events_fd dev"
    and "pendingSensors dev AND SUPPORTED_SENSORS \<noteq> 0"
    and "data__poll dev values stream = (r, v, dev', rest)"
    and "i = top_bit (pendingSensors dev AND SUPPORTED_SENSORS)"
  shows "pick_sensor dev values = (r, v, dev') \<and>
         r = int i \<and> i < MAX_NUM_SENSORS \<and> bit (pendingSensors dev) i \<and>
         (\<forall>j<MAX_NUM_SENSORS. i < j \<longrightarrow> \<not> bit (pendingSensors dev) j) \<and>
         v = (sensors dev i)\<lparr>sensor := 2 ^ i\<rparr> \<and>
         (\<forall>j. bit (pendingSensors dev') j \<longleftrightarrow> bit (pendingSensors dev) j \<and> j \<noteq> i) \<and>
         sensors dev' = sensors dev \<and> rest = stream \<and>
         (pendingSensors dev AND NOT SUPPORTED_SENSORS = 0 \<longrightarrow>
            fst (poll_times (popcount (pendingSensors dev)) dev values stream) =
              map int (pending_desc (pendingSensors dev)) \<and>
            sorted_wrt (>) (pending_desc (pendingSensors dev)) \<and>
            pendingSensors (snd (poll_times (popcount (pendingSensors dev)) dev values stream)) = 0)"
proof -
  note top = top_bit_pending_supported [OF assms(2)]
  from assms(3) data__poll_pending [OF assms(1,2), of "values" stream]
  have r: "r = int i" and v: "v = (sensors dev i)\<lparr>sensor := 2 ^ i\<rparr>"
    and dev': "dev' = dev\<lparr>pendingSensors := clear_bit (pendingSensors dev) i\<rparr>"
    and rest: "rest = stream"
    by (simp_all add: assms(4))
  have pick: "pick_sensor dev values = (r, v, dev')"
    using pick_sensor_pending [OF assms(2), of "values"] by (simp add: r v dev' assms(4))
  have bits: "\<forall>j. bit (pendingSensors dev') j \<longleftrightarrow> bit (pendingSensors dev) j \<and> j \<noteq> i"
    by (simp add: dev' bit_clear_bit)
  have high: "\<forall>j<MAX_NUM_SENSORS. i < j \<longrightarrow> \<not> bit (pendingSensors dev) j"
    using top(3) by (simp add: assms(4) MAX_NUM_SENSORS_def)
  have seq: "fst (poll_times (popcount (pendingSensors dev)) dev values stream) =
        map int (pending_desc (pendingSensors dev)) \<and>
      sorted_wrt (>) (pending_desc (pendingSensors dev)) \<and>
      pendingSensors (snd (poll_times (popcount (pendingSensors dev)) dev values stream)) = 0"
    if "pendingSensors dev AND NOT SUPPORTED_SENSORS = 0"
    using poll_times_pending [OF assms(1) that refl, of "values" stream] pending_desc_descending
    by simp
  from pick r top(1,2) high v bits seq rest show ?thesis
    by (simp add: assms(4) MAX_NUM_SENSORS_def dev')
qed

text \<open>A data context with Acceleration, Orientation and Light pending.\<close>

definition example_ctx :: sensors_data_context_t where
  "example_ctx = \<lparr>events_fd = 4, sensors = (\<lambda>i. zero_sample\<lparr>v_x := of_nat i\<rparr>),
     pendingSensors = 0x25\<rparr>"

lemma example_ctx_poll: "fst (data__poll example_ctx zero_sample []) = 5"
  by code_simp

lemma ex_pop: "popcount (pendingSensors example_ctx) = 3"
  by code_simp

theorem poll_returns_highest_pending_witness:
  "0 \<le> events_fd example_ctx \<and>
   pendingSensors example_ctx AND SUPPORTED_SENSORS \<noteq> 0 \<and>
   pendingSensors example_ctx AND NOT SUPPORTED_SENSORS = 0 \<and>
   fst (data__poll example_ctx zero_sample []) = 5 \<and>
   fst (poll_times 3 example_ctx zero_sample []) = [5, 2, 0]"
proof -
  have fd: "0 \<le> events_fd example_ctx"
    by (simp add: example_ctx_def)
  have nz: "pendingSensors example_ctx AND SUPPORTED_SENSORS \<noteq> 0"
    by code_simp
  have sub: "pendingSensors example_ctx AND NOT SUPPORTED_SENSORS = 0"
    by code_simp
  have top: "top_bit (pendingSensors example_ctx AND SUPPORTED_SENSORS) = 5"
    by code_simp
  have desc: "pending_desc (pendingSensors example_ctx) = [5, 2, 0]"
    by code_simp
  have r: "data__poll example_ctx zero_sample [] =
      (fst (data__poll example_ctx zero_sample []),
       fst (snd (data__poll example_ctx zero_sample [])),
       fst (snd (snd (data__poll example_ctx zero_sample []))),
       snd (snd (snd (data__poll example_ctx zero_sample []))))"
    by simp
  from poll_returns_highest_pending [OF fd nz r refl] fd nz sub top desc ex_pop
  show ?thesis by simp
qed

section \<open>Properties of the raw event loop of \<^verbatim>\<open>data__poll\<close>\<close>

text \<open>What the loop of \<^verbatim>\<open>data__poll\<close> does with one event that is not of type \<^verbatim>\<open>EV_SYN\<close>.\<close>

definition data_event ::
  "input_event \<Rightarrow> u32 \<times> (nat \<Rightarrow> sensors_data_t) \<Rightarrow> u32 \<times> (nat \<Rightarrow> sensors_data_t)" where
  "data_event event st =
     (if ev_type event = EV_ABS then data_abs_event event st
      else if ev_type event = EV_LED then data_led_event event st
      else st)"

lemmas event_defs =
  EV_SYN_def EV_ABS_def EV_LED_def SYN_CONFIG_def
  ABS_X_def ABS_Y_def ABS_Z_def ABS_RX_def ABS_RY_def ABS_RZ_def ABS_THROTTLE_def
  ABS_RUDDER_def ABS_WHEEL_def ABS_BRAKE_def ABS_HAT0X_def ABS_HAT0Y_def ABS_DISTANCE_def
  LED_MISC_def
  EVENT_TYPE_ACCEL_X_def EVENT_TYPE_ACCEL_Y_def EVENT_TYPE_ACCEL_Z_def
  EVENT_TYPE_ACCEL_STATUS_def EVENT_TYPE_YAW_def EVENT_TYPE_PITCH_def EVENT_TYPE_ROLL_def
  EVENT_TYPE_ORIENT_STATUS_def EVENT_TYPE_MAGV_X_def EVENT_TYPE_MAGV_Y_def
  EVENT_TYPE_MAGV_Z_def EVENT_TYPE_TEMPERATURE_def EVENT_TYPE_PROXIMITY_def
  EVENT_TYPE_LIGHT_def

lemmas id_defs = ID_A_def ID_M_def ID_O_def ID_T_def ID_P_def ID_L_def

lemma data__poll_loop_event:
  "ev_type e \<noteq> EV_SYN \<Longrightarrow>
   data__poll_loop (e # rest) ns dev values =
     data__poll_loop rest (fst (data_event e (ns, sensors dev)))
       (dev\<lparr>sensors := snd (data_event e (ns, sensors dev))\<rparr>) values"
  by (simp add: data_event_def Let_def)

lemma data__poll_loop_events:
  "\<forall>e\<in>set es. ev_type e \<noteq> EV_SYN \<Longrightarrow>
   data__poll_loop (es @ rest) ns dev values =
     data__poll_loop rest (fst (fold data_event es (ns, sensors dev)))
       (dev\<lparr>sensors := snd (fold data_event es (ns, sensors dev))\<rparr>) values"
proof (induction es arbitrary: ns dev)
  case Nil
  show ?case by simp
next
  case (Cons e es)
  then have e: "ev_type e \<noteq> EV_SYN" and es: "\<forall>e\<in>set es. ev_type e \<noteq> EV_SYN"
    by simp_all
  show ?case
    unfolding append_Cons data__poll_loop_event [OF e] Cons.IH [OF es]
    by simp
qed

lemma data__poll_loop_boundary:
  assumes "ev_type syn = EV_SYN" and "ev_code syn \<noteq> SYN_CONFIG"
  shows "data__poll_loop (syn # rest) ns dev values =
    (if ns \<noteq> 0 then
       (let r = pick_sensor
          (dev\<lparr>pendingSensors := ns, sensors := stamp_time ns (event_time_ns syn) (sensors dev)\<rparr>)
          values
        in (fst r, fst (snd r), snd (snd r), rest))
     else data__poll_loop rest ns dev values)"
  using assms by (simp add: Let_def EV_SYN_def EV_ABS_def EV_LED_def)

lemma data__poll_idle:
  "0 \<le> events_fd dev \<Longrightarrow> pendingSensors dev = 0 \<Longrightarrow>
   data__poll dev values stream = data__poll_loop stream 0 dev values"
  by (simp add: data__poll_def)

lemma status_event:
  assumes "ev_type e = EV_ABS" and "ev_code e = EVENT_TYPE_ORIENT_STATUS"
  shows "data_event e (ns, sens) =
    (ns, sens(ID_O := (sens ID_O)\<lparr>status := ucast (ev_value e AND SENSOR_STATE_MASK)\<rparr>))"
  using assms by (simp add: data_event_def data_abs_event_def Let_def event_defs)

lemma status_events:
  assumes "\<forall>e\<in>set es. ev_type e = EV_ABS \<and> ev_code e = EVENT_TYPE_ORIENT_STATUS"
  shows "fold data_event es (ns, sens) =
    (ns, if es = [] then sens
         else sens(ID_O := (sens ID_O)\<lparr>status := ucast (ev_value (last es) AND SENSOR_STATE_MASK)\<rparr>))"
  using assms
proof (induction es arbitrary: sens)
  case Nil
  show ?case by simp
next
  case (Cons e es)
  then have e: "ev_type e = EV_ABS" "ev_code e = EVENT_TYPE_ORIENT_STATUS"
    and es: "\<forall>e\<in>set es. ev_type e = EV_ABS \<and> ev_code e = EVENT_TYPE_ORIENT_STATUS"
    by simp_all
  show ?case
    by (auto simp: status_event [OF e] Cons.IH [OF es] fun_eq_iff)
qed

text \<open>
  Claim C9. An \<^verbatim>\<open>EVENT_TYPE_ORIENT_STATUS\<close> event writes the status byte of the orientation
  sample, the event value masked with \<open>0x7FFF\<close> and cut to 8 bits; it changes nothing else
  in any sample and leaves \<^verbatim>\<open>new_sensors\<close> as it is. So when \<^verbatim>\<open>data__poll\<close> reads, with
  nothing pending, an epoch of status events and then a boundary, the boundary returns
  nothing and marks nothing pending: the call goes on with the rest of the stream as a
  call on the context with the last status would.
\<close>

theorem orient_status_only_status_byte:
  assumes "ev_type e = EV_ABS" and "ev_code e = EVENT_TYPE_ORIENT_STATUS"
    and "\<forall>x\<in>set es. ev_type x = EV_ABS \<and> ev_code x = EVENT_TYPE_ORIENT_STATUS"
    and "ev_type syn = EV_SYN" and "ev_code syn \<noteq> SYN_CONFIG"
    and "0 \<le> events_fd dev" and "pendingSensors dev = 0"
  shows "data_abs_event e (new_sensors, sens) =
           (new_sensors, sens(ID_O := (sens ID_O)\<lparr>status := ucast (ev_value e AND 0x7FFF)\<rparr>)) \<and>
         data__poll dev values ((e # es) @ syn # rest) =
           data__poll
             (dev\<lparr>sensors := (sensors dev)
                (ID_O := (sensors dev ID_O)\<lparr>status := ucast (ev_value (last (e # es)) AND 0x7FFF)\<rparr>)\<rparr>)
             values rest"
proof -
  have one: "data_abs_event e (new_sensors, sens) =
      (new_sensors, sens(ID_O := (sens ID_O)\<lparr>status := ucast (ev_value e AND 0x7FFF)\<rparr>))"
    using status_event [OF assms(1,2), of new_sensors sens] assms(1)
    by (simp add: data_event_def SENSOR_STATE_MASK_def)
  have all: "\<forall>x\<in>set (e # es). ev_type x = EV_ABS \<and> ev_code x = EVENT_TYPE_ORIENT_STATUS"
    using assms(1-3) by simp
  then have nosyn: "\<forall>x\<in>set (e # es). ev_type x \<noteq> EV_SYN"
    by (auto simp: EV_ABS_def EV_SYN_def)
  define dev' where "dev' = dev\<lparr>sensors := (sensors dev)
      (ID_O := (sensors dev ID_O)\<lparr>status := ucast (ev_value (last (e # es)) AND 0x7FFF)\<rparr>)\<rparr>"
  have "data__poll dev values ((e # es) @ syn # rest) =
      data__poll_loop ((e # es) @ syn # rest) 0 dev values"
    using assms(6,7) by (rule data__poll_idle)
  also have "\<dots> = data__poll_loop (syn # rest) 0 dev' values"
    unfolding data__poll_loop_events [OF nosyn] status_events [OF all]
    by (simp add: dev'_def SENSOR_STATE_MASK_def)
  also have "\<dots> = data__poll_loop rest 0 dev' values"
    unfolding data__poll_loop_boundary [OF assms(4,5)] by simp
  also have "\<dots> = data__poll dev' values rest"
    using assms(6,7) by (simp add: data__poll_idle dev'_def)
  finally show ?thesis
    using one by (simp add: dev'_def)
qed

text \<open>
  Examples: a raw event at time 12 s 345 us, a context with stale samples, and the context
  that \<^verbatim>\<open>data__data_open\<close> makes of it.
\<close>

definition raw_event :: "16 word \<Rightarrow> 16 word \<Rightarrow> 32 word \<Rightarrow> input_event" where
  "raw_event t c v = \<lparr>tv_sec = 12, tv_usec = 345, ev_type = t, ev_code = c, ev_value = v\<rparr>"

definition stale_ctx :: sensors_data_context_t where
  "stale_ctx = \<lparr>events_fd = - 1,
     sensors = (\<lambda>i. \<lparr>sensor = 1, v_x = 7, v_y = 8, v_z = 9, status = 1, time = 99\<rparr>),
     pendingSensors = 0x3F\<rparr>"

definition opened_ctx :: sensors_data_context_t where
  "opened_ctx = snd (data__data_open stale_ctx 4)"

theorem orient_status_only_status_byte_witness:
  "ev_type (raw_event EV_ABS EVENT_TYPE_ORIENT_STATUS 0x8102) = EV_ABS \<and>
   ev_code (raw_event EV_ABS EVENT_TYPE_ORIENT_STATUS 0x8102) = EVENT_TYPE_ORIENT_STATUS \<and>
   ev_type (raw_event EV_SYN 0 0) = EV_SYN \<and> ev_code (raw_event EV_SYN 0 0) \<noteq> SYN_CONFIG \<and>
   0 \<le> events_fd opened_ctx \<and> pendingSensors opened_ctx = 0 \<and>
   data__poll opened_ctx zero_sample
     [raw_event EV_ABS EVENT_TYPE_ORIENT_STATUS 0x8102, raw_event EV_SYN 0 0] =
   data__poll
     (opened_ctx\<lparr>sensors := (sensors opened_ctx)
        (ID_O := (sensors opened_ctx ID_O)\<lparr>status := 2\<rparr>)\<rparr>)
     zero_sample [] \<and>
   fst (data__poll opened_ctx zero_sample
     [raw_event EV_ABS EVENT_TYPE_ORIENT_STATUS 0x8102, raw_event EV_SYN 0 0]) = - 1"
proof -
  have h: "ev_type (raw_event EV_ABS EVENT_TYPE_ORIENT_STATUS 0x8102) = EV_ABS"
    "ev_code (raw_event EV_ABS EVENT_TYPE_ORIENT_STATUS 0x8102) = EVENT_TYPE_ORIENT_STATUS"
    "\<forall>x\<in>set []. ev_type x = EV_ABS \<and> ev_code x = EVENT_TYPE_ORIENT_STATUS"
    "ev_type (raw_event EV_SYN 0 0) = EV_SYN" "ev_code (raw_event EV_SYN 0 0) \<noteq> SYN_CONFIG"
    by (simp_all add: raw_event_def SYN_CONFIG_def)
  have c: "0 \<le> events_fd opened_ctx" "pendingSensors opened_ctx = 0"
    by (simp_all add: opened_ctx_def data__data_open_def Let_def)
  have v: "(ucast (ev_value (raw_event EV_ABS EVENT_TYPE_ORIENT_STATUS 0x8102) AND 0x7FFF) :: 8 word) = 2"
    by (simp add: raw_event_def)
  have r: "fst (data__poll opened_ctx zero_sample
     [raw_event EV_ABS EVENT_TYPE_ORIENT_STATUS 0x8102, raw_event EV_SYN 0 0]) = - 1"
    by code_simp
  from orient_status_only_status_byte [OF h c, of 0 "sensors opened_ctx" zero_sample "[]"] h c r
  show ?thesis
    by (simp add: v)
qed

text \<open>
  The sample fields as the spec names them, each with its sensor, its place in the sample,
  its unit conversion (section 4.1 of the spec) and the raw event that carries it (the
  \<^verbatim>\<open>EVENT_TYPE_\<close> table of the source).
\<close>

datatype field =
  Acc_x | Acc_y | Acc_z | Mag_x | Mag_y | Mag_z | Azimuth | Pitch | Roll
| Temperature | Distance | Light

fun field_sensor :: "field \<Rightarrow> nat" where
  "field_sensor Acc_x = ID_A" | "field_sensor Acc_y = ID_A" | "field_sensor Acc_z = ID_A"
| "field_sensor Mag_x = ID_M" | "field_sensor Mag_y = ID_M" | "field_sensor Mag_z = ID_M"
| "field_sensor Azimuth = ID_O" | "field_sensor Pitch = ID_O" | "field_sensor Roll = ID_O"
| "field_sensor Temperature = ID_T"
| "field_sensor Distance = ID_P"
| "field_sensor Light = ID_L"

fun field_get :: "field \<Rightarrow> sensors_data_t \<Rightarrow> f32" where
  "field_get Acc_x = v_x" | "field_get Acc_y = v_y" | "field_get Acc_z = v_z"
| "field_get Mag_x = v_x" | "field_get Mag_y = v_y" | "field_get Mag_z = v_z"
| "field_get Azimuth = v_x" | "field_get Pitch = v_y" | "field_get Roll = v_z"
| "field_get Temperature = v_x"
| "field_get Distance = v_x"
| "field_get Light = v_x"

fun field_put :: "field \<Rightarrow> f32 \<Rightarrow> sensors_data_t \<Rightarrow> sensors_data_t" where
  "field_put Acc_x a d = d\<lparr>v_x := a\<rparr>" | "field_put Acc_y a d = d\<lparr>v_y := a\<rparr>"
| "field_put Acc_z a d = d\<lparr>v_z := a\<rparr>"
| "field_put Mag_x a d = d\<lparr>v_x := a\<rparr>" | "field_put Mag_y a d = d\<lparr>v_y := a\<rparr>"
| "field_put Mag_z a d = d\<lparr>v_z := a\<rparr>"
| "field_put Azimuth a d = d\<lparr>v_x := a\<rparr>" | "field_put Pitch a d = d\<lparr>v_y := a\<rparr>"
| "field_put Roll a d = d\<lparr>v_z := a\<rparr>"
| "field_put Temperature a d = d\<lparr>v_x := a\<rparr>"
| "field_put Distance a d = d\<lparr>v_x := a\<rparr>"
| "field_put Light a d = d\<lparr>v_x := a\<rparr>"

fun convert :: "field \<Rightarrow> int \<Rightarrow> f32" where
  "convert Acc_x raw = f32_mul (f32_of_int raw) (f32_div GRAVITY_EARTH 1000)"
| "convert Acc_y raw = f32_mul (f32_of_int raw) (f32_div GRAVITY_EARTH 1000)"
| "convert Acc_z raw = f32_mul (f32_of_int raw) (f32_div GRAVITY_EARTH 1000)"
| "convert Mag_x raw = f32_mul (f32_of_int raw) (f32_div 1 16)"
| "convert Mag_y raw = f32_mul (f32_of_int raw) (- f32_div 1 16)"
| "convert Mag_z raw = f32_mul (f32_of_int raw) (- f32_div 1 16)"
| "convert Azimuth raw = f32_mul (f32_of_int raw) (f32_div 1 64)"
| "convert Pitch raw = f32_mul (f32_of_int raw) (f32_div 1 64)"
| "convert Roll raw = f32_mul (f32_of_int raw) (- f32_div 1 64)"
| "convert Temperature raw = f32_of_int raw"
| "convert Distance raw = (if f32_mul (f32_of_int raw) (f32_div 1 5) \<le> 6 then 0 else 6)"
| "convert Light raw = f32_of_int raw"

definition event_field :: "input_event \<Rightarrow> field option" where
  "event_field e =
     (if ev_type e = EV_ABS then
        (if ev_code e = ABS_X then Some Acc_x
         else if ev_code e = ABS_Y then Some Acc_y
         else if ev_code e = ABS_Z then Some Acc_z
         else if ev_code e = ABS_HAT0X then Some Mag_x
         else if ev_code e = ABS_HAT0Y then Some Mag_y
         else if ev_code e = ABS_BRAKE then Some Mag_z
         else if ev_code e = ABS_RX then Some Azimuth
         else if ev_code e = ABS_RY then Some Pitch
         else if ev_code e = ABS_RZ then Some Roll
         else if ev_code e = ABS_THROTTLE then Some Temperature
         else if ev_code e = ABS_DISTANCE then Some Distance
         else None)
      else if ev_type e = EV_LED \<and> ev_code e = LED_MISC then Some Light
      else None)"

definition is_status_event :: "input_event \<Rightarrow> bool" where
  "is_status_event e \<longleftrightarrow> ev_type e = EV_ABS \<and> ev_code e = EVENT_TYPE_ORIENT_STATUS"

lemmas convert_defs =
  CONVERT_A_def CONVERT_A_X_def CONVERT_A_Y_def CONVERT_A_Z_def LSG_def
  CONVERT_M_def CONVERT_M_X_def CONVERT_M_Y_def CONVERT_M_Z_def
  CONVERT_O_def CONVERT_O_Y_def CONVERT_O_P_def CONVERT_O_R_def
  CONVERT_P_def PROXIMITY_THRESHOLD_CM_def

lemmas sensor_bit_defs =
  SENSORS_ACCELERATION_def SENSORS_MAGNETIC_FIELD_def SENSORS_ORIENTATION_def
  SENSORS_TEMPERATURE_def SENSORS_PROXIMITY_def SENSORS_LIGHT_def

lemma data_event_field:
  "event_field e = Some f \<Longrightarrow>
   data_event e (ns, sens) =
     (ns OR push_bit (field_sensor f) 1,
      sens(field_sensor f := field_put f (convert f (sint (ev_value e))) (sens (field_sensor f))))"
  unfolding event_field_def data_event_def data_abs_event_def data_led_event_def Let_def
    event_defs convert_defs sensor_bit_defs
  by (auto split: if_splits)

lemma event_time_ns_wellformed:
  assumes "0 \<le> sint (tv_usec e)" and "sint (tv_usec e) < 1000000"
  shows "sint (event_time_ns e) = sint (tv_sec e) * 1000000000 + sint (tv_usec e) * 1000"
proof -
  have sec: "- (2 ^ 31) \<le> sint (tv_sec e)" "sint (tv_sec e) < 2 ^ 31"
    using sint_range_size [of "tv_sec e"] by (simp_all add: word_size)
  have usec: "sint (tv_usec e * 1000) = sint (tv_usec e) * 1000"
    using assms by (simp add: sint_word_mult signed_take_bit_int_eq_self)
  have up: "sint (scast w :: 64 word) = sint w" for w :: "32 word"
    by (rule sint_up_scast) (simp add: is_up)
  have "sint (scast (tv_sec e) * 1000000000 :: 64 word) = sint (tv_sec e) * 1000000000"
    using sec by (simp add: sint_word_mult up signed_take_bit_int_eq_self)
  then show ?thesis
    using sec assms unfolding event_time_ns_def
    by (simp add: sint_word_add up usec signed_take_bit_int_eq_self)
qed

lemma status_field_put: "status (field_put f a d) = status d"
  by (cases f) simp_all

lemma time_field_put: "time (field_put f a d) = time d"
  by (cases f) simp_all

lemma sensor_field_put: "sensor (field_put f a d) = sensor d"
  by (cases f) simp_all

lemma field_get_put: "field_get f (field_put f a d) = a"
  by (cases f) simp_all

lemma field_get_put_other:
  "f \<noteq> g \<Longrightarrow> field_sensor f = field_sensor g \<Longrightarrow> field_get g (field_put f a d) = field_get g d"
  by (cases f; cases g) (simp_all add: id_defs)

lemma field_sensor_less: "field_sensor f < MAX_NUM_SENSORS"
  by (cases f) (simp_all add: id_defs MAX_NUM_SENSORS_def)

lemma data_event_status_event:
  "is_status_event e \<Longrightarrow>
   data_event e (ns, sens) =
     (ns, sens(ID_O := (sens ID_O)\<lparr>status := ucast (ev_value e AND SENSOR_STATE_MASK)\<rparr>))"
  by (simp add: is_status_event_def status_event)

lemma data_event_other:
  "event_field e = None \<Longrightarrow> \<not> is_status_event e \<Longrightarrow> data_event e (ns, sens) = (ns, sens)"
  unfolding event_field_def data_event_def data_abs_event_def data_led_event_def Let_def
    is_status_event_def event_defs
  by (auto split: if_splits)

lemma status_event_no_field: "is_status_event e \<Longrightarrow> event_field e = None"
  unfolding event_field_def is_status_event_def event_defs by simp

lemma data_event_get:
  "field_get g (snd (data_event e (ns, sens)) (field_sensor g)) =
     (if event_field e = Some g then convert g (sint (ev_value e))
      else field_get g (sens (field_sensor g)))"
proof (cases "event_field e")
  case None
  show ?thesis
  proof (cases "is_status_event e")
    case True
    then show ?thesis
      by (cases g) (simp_all add: None data_event_status_event)
  next
    case False
    with None show ?thesis
      by (simp add: data_event_other)
  qed
next
  case (Some f)
  show ?thesis
    unfolding data_event_field [OF Some] Some
    by (auto simp: field_get_put field_get_put_other)
qed

lemma data_event_time: "time (snd (data_event e (ns, sens)) i) = time (sens i)"
proof (cases "event_field e")
  case None
  then show ?thesis
    by (cases "is_status_event e") (simp_all add: data_event_status_event data_event_other)
next
  case (Some f)
  show ?thesis
    unfolding data_event_field [OF Some] by (simp add: time_field_put)
qed

lemma data_event_status:
  "\<not> is_status_event e \<Longrightarrow> status (snd (data_event e (ns, sens)) i) = status (sens i)"
proof (cases "event_field e")
  case None
  assume "\<not> is_status_event e"
  with None show ?thesis
    by (simp add: data_event_other)
next
  case (Some f)
  show ?thesis
    unfolding data_event_field [OF Some] by (simp add: status_field_put)
qed

lemma bit_sensor_bit: "bit (push_bit (field_sensor f) 1 :: u32) i \<longleftrightarrow> i = field_sensor f"
  using field_sensor_less [of f] by (auto simp: bit_simps MAX_NUM_SENSORS_def)

lemma bit_sensor_exp: "bit (2 ^ field_sensor f :: u32) i \<longleftrightarrow> i = field_sensor f"
  using bit_sensor_bit [of f i] by simp

lemma data_event_touched:
  "bit (fst (data_event e (ns, sens))) i \<longleftrightarrow>
     bit ns i \<or> (case event_field e of Some f \<Rightarrow> field_sensor f = i | None \<Rightarrow> False)"
proof (cases "event_field e")
  case None
  then show ?thesis
    by (cases "is_status_event e") (simp_all add: data_event_status_event data_event_other)
next
  case (Some f)
  show ?thesis
    unfolding data_event_field [OF Some] Some
    by (auto simp: bit_or_iff bit_sensor_exp)
qed

text \<open>
  The last raw value written to a field in an epoch, and the sensors touched in it.
\<close>

definition last_raw :: "field \<Rightarrow> input_event list \<Rightarrow> 32 word option" where
  "last_raw f es =
     (case filter (\<lambda>e. event_field e = Some f) es of
        [] \<Rightarrow> None
      | x # xs \<Rightarrow> Some (ev_value (last (x # xs))))"

definition touched :: "input_event list \<Rightarrow> nat \<Rightarrow> bool" where
  "touched es i \<longleftrightarrow>
     (\<exists>e\<in>set es. case event_field e of Some f \<Rightarrow> field_sensor f = i | None \<Rightarrow> False)"

lemma last_raw_Cons:
  "last_raw f (e # es) =
     (case last_raw f es of
        Some raw \<Rightarrow> Some raw
      | None \<Rightarrow> if event_field e = Some f then Some (ev_value e) else None)"
  by (auto simp: last_raw_def split: list.splits)

lemma touched_Cons:
  "touched (e # es) i \<longleftrightarrow>
     (case event_field e of Some f \<Rightarrow> field_sensor f = i | None \<Rightarrow> False) \<or> touched es i"
  by (simp add: touched_def)

lemma touched_less: "touched es i \<Longrightarrow> i < MAX_NUM_SENSORS"
  using field_sensor_less by (auto simp: touched_def split: option.splits)

lemma fold_data_event:
  "(\<forall>i. bit (fst (fold data_event es (ns, sens))) i \<longleftrightarrow> bit ns i \<or> touched es i) \<and>
   (\<forall>f. field_get f (snd (fold data_event es (ns, sens)) (field_sensor f)) =
      (case last_raw f es of
         Some raw \<Rightarrow> convert f (sint raw)
       | None \<Rightarrow> field_get f (sens (field_sensor f)))) \<and>
   (\<forall>i. time (snd (fold data_event es (ns, sens)) i) = time (sens i))"
proof (induction es arbitrary: ns sens)
  case Nil
  show ?case
    by (simp add: touched_def last_raw_def)
next
  case (Cons e es)
  obtain ns1 sens1 where step: "data_event e (ns, sens) = (ns1, sens1)"
    by (cases "data_event e (ns, sens)")
  have bits: "bit ns1 i \<longleftrightarrow>
      bit ns i \<or> (case event_field e of Some f \<Rightarrow> field_sensor f = i | None \<Rightarrow> False)" for i
    using data_event_touched [of e ns sens i] by (simp add: step)
  have get: "field_get g (sens1 (field_sensor g)) =
      (if event_field e = Some g then convert g (sint (ev_value e))
       else field_get g (sens (field_sensor g)))" for g
    using data_event_get [of g e ns sens] by (simp add: step)
  have tm: "time (sens1 i) = time (sens i)" for i
    using data_event_time [of e ns sens i] by (simp add: step)
  note IH = Cons.IH [of ns1 sens1]
  show ?case
    unfolding fold_Cons comp_apply step
  proof (intro conjI allI)
    fix i
    show "bit (fst (fold data_event es (ns1, sens1))) i \<longleftrightarrow> bit ns i \<or> touched (e # es) i"
      using IH bits [of i] by (auto simp: touched_Cons)
  next
    fix f
    show "field_get f (snd (fold data_event es (ns1, sens1)) (field_sensor f)) =
        (case last_raw f (e # es) of
           Some raw \<Rightarrow> convert f (sint raw)
         | None \<Rightarrow> field_get f (sens (field_sensor f)))"
      using IH get [of f] by (simp add: last_raw_Cons split: option.splits)
  next
    fix i
    show "time (snd (fold data_event es (ns1, sens1)) i) = time (sens i)"
      using IH tm [of i] by simp
  qed
qed

text \<open>
  Claim C6. \<^verbatim>\<open>data__poll\<close>, called with nothing pending, reads an epoch \<open>es\<close> of raw events
  and then a boundary \<open>syn\<close> (an \<^verbatim>\<open>EV_SYN\<close> event other than \<^verbatim>\<open>SYN_CONFIG\<close>); at least one
  sensor is touched. Then every field holds the conversion of the last raw value written
  to it in the epoch (a field not written keeps its value); the touched sensors, and only
  they, carry the time of the boundary, which for a well-formed \<^verbatim>\<open>timeval\<close> is
  \<open>tv_sec * 10^9 + tv_usec * 1000\<close>; the call returns the highest touched sensor with its
  sample, and exactly the other touched sensors are pending after it.
\<close>

theorem boundary_delivers_epoch:
  assumes "0 \<le> events_fd dev" and "pendingSensors dev = 0"
    and "\<forall>e\<in>set es. ev_type e \<noteq> EV_SYN"
    and "ev_type syn = EV_SYN" and "ev_code syn \<noteq> SYN_CONFIG"
    and "touched es k"
    and "data__poll dev values (es @ syn # rest) = (r, v, dev', rest')"
  shows "(\<forall>f. field_get f (sensors dev' (field_sensor f)) =
            (case last_raw f es of
               Some raw \<Rightarrow> convert f (sint raw)
             | None \<Rightarrow> field_get f (sensors dev (field_sensor f)))) \<and>
         (\<forall>i. time (sensors dev' i) =
            (if touched es i then event_time_ns syn else time (sensors dev i))) \<and>
         (0 \<le> sint (tv_usec syn) \<and> sint (tv_usec syn) < 1000000 \<longrightarrow>
            sint (event_time_ns syn) =
              sint (tv_sec syn) * 1000000000 + sint (tv_usec syn) * 1000) \<and>
         0 \<le> r \<and> touched es (nat r) \<and> (\<forall>i. touched es i \<longrightarrow> i \<le> nat r) \<and>
         (\<forall>i. bit (pendingSensors dev') i \<longleftrightarrow> touched es i \<and> i \<noteq> nat r) \<and>
         v = (sensors dev' (nat r))\<lparr>sensor := 2 ^ nat r\<rparr> \<and>
         rest' = rest"
proof -
  define ns where "ns = fst (fold data_event es (0, sensors dev))"
  define sens where "sens = snd (fold data_event es (0, sensors dev))"
  define t where "t = event_time_ns syn"
  define dev2 where "dev2 = dev\<lparr>pendingSensors := ns, sensors := stamp_time ns t sens\<rparr>"
  from fold_data_event [of es 0 "sensors dev"]
  have bits: "\<And>i. bit ns i \<longleftrightarrow> touched es i"
    and get: "\<And>f. field_get f (sens (field_sensor f)) =
      (case last_raw f es of
         Some raw \<Rightarrow> convert f (sint raw)
       | None \<Rightarrow> field_get f (sensors dev (field_sensor f)))"
    and tm: "\<And>i. time (sens i) = time (sensors dev i)"
    by (simp_all add: ns_def sens_def)
  from assms(6) bits have nz: "ns \<noteq> 0"
    by auto
  have sub: "ns AND SUPPORTED_SENSORS = ns"
    using touched_less
    by (intro bit_eqI) (auto simp: bit_simps bit_SUPPORTED_SENSORS bits MAX_NUM_SENSORS_def)
  have pend: "pendingSensors dev2 AND SUPPORTED_SENSORS \<noteq> 0"
    using nz sub by (simp add: dev2_def)
  define i where "i = top_bit ns"
  have poll: "data__poll dev values (es @ syn # rest) =
      (int i, (sensors dev2 i)\<lparr>sensor := 2 ^ i\<rparr>,
       dev2\<lparr>pendingSensors := clear_bit ns i\<rparr>, rest)"
    unfolding data__poll_idle [OF assms(1,2)] data__poll_loop_events [OF assms(3)]
      data__poll_loop_boundary [OF assms(4,5)]
    using nz pick_sensor_pending [OF pend, of "values"] sub
    by (simp add: Let_def ns_def sens_def dev2_def t_def i_def)
  from assms(7) have r: "r = int i" and v: "v = (sensors dev2 i)\<lparr>sensor := 2 ^ i\<rparr>"
    and dev': "dev' = dev2\<lparr>pendingSensors := clear_bit ns i\<rparr>" and rest: "rest' = rest"
    unfolding poll by simp_all
  have sens': "sensors dev' = stamp_time ns t sens"
    by (simp add: dev' dev2_def)
  have get_time: "field_get f (d\<lparr>time := t\<rparr>) = field_get f d" for f d
    by (cases f) simp_all
  have fields: "field_get f (sensors dev' (field_sensor f)) =
      (case last_raw f es of
         Some raw \<Rightarrow> convert f (sint raw)
       | None \<Rightarrow> field_get f (sensors dev (field_sensor f)))" for f
    unfolding sens' stamp_time_spec using get [of f] by (simp add: get_time)
  have times: "time (sensors dev' j) =
      (if touched es j then event_time_ns syn else time (sensors dev j))" for j
    unfolding sens' stamp_time_spec by (simp add: bits tm t_def)
  have top: "touched es i" "\<And>j. touched es j \<Longrightarrow> j \<le> i"
  proof -
    show "touched es i"
      using top_bit_set [OF nz] by (simp add: i_def bits)
    show "j \<le> i" if "touched es j" for j
    proof (rule ccontr)
      assume "\<not> j \<le> i"
      then have "top_bit ns < j"
        by (simp add: i_def)
      from top_bit_highest [OF nz this] that show False
        by (simp add: bits)
    qed
  qed
  have pending: "bit (pendingSensors dev') j \<longleftrightarrow> touched es j \<and> j \<noteq> i" for j
    by (simp add: dev' bit_clear_bit bits)
  have wf: "0 \<le> sint (tv_usec syn) \<and> sint (tv_usec syn) < 1000000 \<longrightarrow>
      sint (event_time_ns syn) = sint (tv_sec syn) * 1000000000 + sint (tv_usec syn) * 1000"
    using event_time_ns_wellformed [of syn] by blast
  from fields times wf top pending rest show ?thesis
    by (simp add: r v dev')
qed

text \<open>An epoch that writes the acceleration's x twice and the magnetic field's y once.\<close>

definition example_epoch :: "input_event list" where
  "example_epoch =
     [raw_event EV_ABS ABS_X 1000, raw_event EV_ABS ABS_X 500, raw_event EV_ABS ABS_HAT0Y 16]"

lemma opened_ctx_ready: "0 \<le> events_fd opened_ctx" "pendingSensors opened_ctx = 0"
  by (simp_all add: opened_ctx_def data__data_open_def Let_def)

theorem boundary_delivers_epoch_witness:
  "0 \<le> events_fd opened_ctx \<and> pendingSensors opened_ctx = 0 \<and>
   touched example_epoch ID_A \<and> touched example_epoch ID_M \<and>
   fst (data__poll opened_ctx zero_sample (example_epoch @ [raw_event EV_SYN 0 0])) = 1 \<and>
   v_x (sensors (fst (snd (snd
     (data__poll opened_ctx zero_sample (example_epoch @ [raw_event EV_SYN 0 0]))))) ID_A) =
     convert Acc_x 500 \<and>
   time (sensors (fst (snd (snd
     (data__poll opened_ctx zero_sample (example_epoch @ [raw_event EV_SYN 0 0]))))) ID_A) =
     12000345000 \<and>
   time (sensors (fst (snd (snd
     (data__poll opened_ctx zero_sample (example_epoch @ [raw_event EV_SYN 0 0]))))) ID_M) =
     12000345000"
proof -
  have nosyn: "\<forall>e\<in>set example_epoch. ev_type e \<noteq> EV_SYN"
    by (simp add: example_epoch_def raw_event_def EV_ABS_def EV_SYN_def)
  have syn: "ev_type (raw_event EV_SYN 0 0) = EV_SYN" "ev_code (raw_event EV_SYN 0 0) \<noteq> SYN_CONFIG"
    by (simp_all add: raw_event_def SYN_CONFIG_def)
  have tA: "touched example_epoch ID_A" and tM: "touched example_epoch ID_M"
    by code_simp+
  have lr: "last_raw Acc_x example_epoch = Some 500"
    by code_simp
  have t: "event_time_ns (raw_event EV_SYN 0 0) = 12000345000"
    by code_simp
  have r: "fst (data__poll opened_ctx zero_sample (example_epoch @ [raw_event EV_SYN 0 0])) = 1"
    by code_simp
  have p: "data__poll opened_ctx zero_sample (example_epoch @ raw_event EV_SYN 0 0 # []) =
      (fst (data__poll opened_ctx zero_sample (example_epoch @ [raw_event EV_SYN 0 0])),
       fst (snd (data__poll opened_ctx zero_sample (example_epoch @ [raw_event EV_SYN 0 0]))),
       fst (snd (snd (data__poll opened_ctx zero_sample (example_epoch @ [raw_event EV_SYN 0 0])))),
       snd (snd (snd (data__poll opened_ctx zero_sample (example_epoch @ [raw_event EV_SYN 0 0])))))"
    by simp
  note concl = boundary_delivers_epoch [OF opened_ctx_ready nosyn syn tA p]
  define d where "d = fst (snd (snd
      (data__poll opened_ctx zero_sample (example_epoch @ [raw_event EV_SYN 0 0]))))"
  from concl have "field_get Acc_x (sensors d (field_sensor Acc_x)) =
      (case last_raw Acc_x example_epoch of
         Some raw \<Rightarrow> convert Acc_x (sint raw)
       | None \<Rightarrow> field_get Acc_x (sensors opened_ctx (field_sensor Acc_x)))"
    unfolding d_def by blast
  then have f: "v_x (sensors d ID_A) = convert Acc_x 500"
    by (simp add: lr)
  from concl have "\<forall>i. time (sensors d i) =
      (if touched example_epoch i then event_time_ns (raw_event EV_SYN 0 0)
       else time (sensors opened_ctx i))"
    unfolding d_def by blast
  with tA tM have tm: "time (sensors d ID_A) = 12000345000" "time (sensors d ID_M) = 12000345000"
    by (simp_all add: t)
  from opened_ctx_ready tA tM r f tm show ?thesis
    by (simp add: d_def)
qed

lemma data__data_open_eq:
  "data__data_open dev fd =
     (0, \<lparr>events_fd = fd,
          sensors = (\<lambda>i. if i < MAX_NUM_SENSORS
                          then zero_sample\<lparr>status := SENSOR_STATUS_ACCURACY_HIGH\<rparr>
                          else zero_sample),
          pendingSensors = 0\<rparr>)"
proof -
  have "fold (\<lambda>i s. s(i := (s i)\<lparr>status := SENSOR_STATUS_ACCURACY_HIGH\<rparr>)) [0..<n] (\<lambda>i. zero_sample)
      = (\<lambda>i. if i < n then zero_sample\<lparr>status := SENSOR_STATUS_ACCURACY_HIGH\<rparr> else zero_sample)"
    for n
    by (induction n) (auto simp: fun_eq_iff)
  then show ?thesis
    by (cases dev) (simp add: data__data_open_def Let_def)
qed

text \<open>Every sample of the array reports high accuracy.\<close>

definition all_high :: "(nat \<Rightarrow> sensors_data_t) \<Rightarrow> bool" where
  "all_high sens \<longleftrightarrow> (\<forall>i<MAX_NUM_SENSORS. status (sens i) = SENSOR_STATUS_ACCURACY_HIGH)"

lemma data_event_all_high:
  "\<not> is_status_event e \<Longrightarrow> all_high sens \<Longrightarrow> all_high (snd (data_event e (ns, sens)))"
  by (simp add: all_high_def data_event_status)

lemma stamp_time_all_high: "all_high sens \<Longrightarrow> all_high (stamp_time ns t sens)"
  by (simp add: all_high_def stamp_time_spec)

lemma pick_sensor_all_high:
  assumes "all_high (sensors dev)" and "pick_sensor dev values = (r, v, dev')"
    and "0 \<le> r"
  shows "status v = SENSOR_STATUS_ACCURACY_HIGH"
proof (cases "pendingSensors dev AND SUPPORTED_SENSORS = 0")
  case True
  with assms(2,3) show ?thesis
    by (simp add: pick_sensor_none)
next
  case False
  from top_bit_pending_supported(1) [OF False] assms(1)
  have "status (sensors dev (top_bit (pendingSensors dev AND SUPPORTED_SENSORS))) =
      SENSOR_STATUS_ACCURACY_HIGH"
    by (simp add: all_high_def MAX_NUM_SENSORS_def)
  with assms(2) show ?thesis
    unfolding pick_sensor_pending [OF False] by auto
qed

lemma data__poll_loop_all_high:
  assumes "all_high (sensors dev)" and "\<forall>e\<in>set stream. \<not> is_status_event e"
    and "data__poll_loop stream ns dev values = (r, v, dev', rest)"
    and "0 \<le> r" and "r \<noteq> 0x7FFFFFFF"
  shows "status v = SENSOR_STATUS_ACCURACY_HIGH"
  using assms
proof (induction stream arbitrary: ns dev)
  case Nil
  then show ?case by simp
next
  case (Cons e stream)
  from Cons.prems(2) have e: "\<not> is_status_event e"
    and rest: "\<forall>e\<in>set stream. \<not> is_status_event e"
    by simp_all
  show ?case
  proof (cases "ev_type e = EV_SYN")
    case False
    have high: "all_high (sensors (dev\<lparr>sensors := snd (data_event e (ns, sensors dev))\<rparr>))"
      using Cons.prems(1) e by (simp add: data_event_all_high)
    from Cons.prems(3) have "data__poll_loop stream (fst (data_event e (ns, sensors dev)))
        (dev\<lparr>sensors := snd (data_event e (ns, sensors dev))\<rparr>) values = (r, v, dev', rest)"
      unfolding data__poll_loop_event [OF False] .
    from Cons.IH [OF high rest this Cons.prems(4,5)] show ?thesis .
  next
    case syn: True
    show ?thesis
    proof (cases "ev_code e = SYN_CONFIG")
      case True
      have "data__poll_loop (e # stream) ns dev values = (0x7FFFFFFF, values, dev, stream)"
        using syn True by (simp add: EV_SYN_def EV_ABS_def EV_LED_def)
      with Cons.prems(3,5) show ?thesis
        by simp
    next
      case False
      show ?thesis
      proof (cases "ns = 0")
        case True
        with Cons.prems(3) have "data__poll_loop stream ns dev values = (r, v, dev', rest)"
          unfolding data__poll_loop_boundary [OF syn False] by simp
        from Cons.IH [OF Cons.prems(1) rest this Cons.prems(4,5)] show ?thesis .
      next
        case nz: False
        define dev2 where "dev2 = dev\<lparr>pendingSensors := ns,
          sensors := stamp_time ns (event_time_ns e) (sensors dev)\<rparr>"
        have high: "all_high (sensors dev2)"
          using Cons.prems(1) by (simp add: dev2_def stamp_time_all_high)
        from Cons.prems(3) nz have "pick_sensor dev2 values = (r, v, dev')"
          unfolding data__poll_loop_boundary [OF syn False] dev2_def
          by (simp add: Let_def prod_eq_iff)
        from pick_sensor_all_high [OF high this Cons.prems(4)] show ?thesis .
      qed
    qed
  qed
qed

text \<open>
  The calls of \<^verbatim>\<open>data__poll\<close> in a row, one for each sample buffer of the list, each on
  the context and the unread stream that the call before left: for every call its return
  value, the buffer after it and the stream that it left unread.
\<close>

fun data__poll_calls ::
  "sensors_data_context_t \<Rightarrow> input_event list \<Rightarrow> sensors_data_t list
     \<Rightarrow> (int \<times> sensors_data_t \<times> input_event list) list" where
  "data__poll_calls dev stream [] = []"
| "data__poll_calls dev stream (values # bufs) =
     (let r = data__poll dev values stream in
      (fst r, fst (snd r), snd (snd (snd r))) #
      data__poll_calls (fst (snd (snd r))) (snd (snd (snd r))) bufs)"

text \<open>
  A call reads a front part of the stream and leaves the rest; as long as the part read
  holds no status event, the call keeps every status of the array high and delivers a
  sample of high accuracy.
\<close>

lemma pick_sensor_sensors: "sensors (snd (snd (pick_sensor dev values))) = sensors dev"
proof (cases "pendingSensors dev AND SUPPORTED_SENSORS = 0")
  case True
  then show ?thesis
    by (simp add: pick_sensor_none)
next
  case False
  show ?thesis
    unfolding pick_sensor_pending [OF False] by simp
qed

lemma data__poll_loop_suffix:
  "\<exists>used. stream = used @ snd (snd (snd (data__poll_loop stream ns dev values)))"
proof (induction stream arbitrary: ns dev)
  case Nil
  show ?case by simp
next
  case (Cons e stream)
  show ?case
  proof (cases "ev_type e = EV_SYN")
    case False
    from Cons.IH [of "fst (data_event e (ns, sensors dev))"
        "dev\<lparr>sensors := snd (data_event e (ns, sensors dev))\<rparr>"]
    obtain used where "stream = used @ snd (snd (snd (data__poll_loop (e # stream) ns dev values)))"
      unfolding data__poll_loop_event [OF False] ..
    then show ?thesis
      by (intro exI [of _ "e # used"]) simp
  next
    case syn: True
    show ?thesis
    proof (cases "ev_code e = SYN_CONFIG")
      case True
      have "data__poll_loop (e # stream) ns dev values = (0x7FFFFFFF, values, dev, stream)"
        using syn True by (simp add: EV_SYN_def EV_ABS_def EV_LED_def)
      then show ?thesis
        by (intro exI [of _ "[e]"]) simp
    next
      case False
      show ?thesis
      proof (cases "ns = 0")
        case True
        from Cons.IH [of ns dev]
        obtain used where "stream = used @ snd (snd (snd (data__poll_loop stream ns dev values)))" ..
        with True show ?thesis
          unfolding data__poll_loop_boundary [OF syn False]
          by (intro exI [of _ "e # used"]) simp
      next
        case nz: False
        then show ?thesis
          unfolding data__poll_loop_boundary [OF syn False]
          by (intro exI [of _ "[e]"]) (simp add: Let_def)
      qed
    qed
  qed
qed

lemma data__poll_loop_read:
  assumes "all_high (sensors dev)"
    and "data__poll_loop stream ns dev values = (r, v, dev', rest)"
  shows "\<exists>used. stream = used @ rest \<and>
    ((\<forall>e\<in>set used. \<not> is_status_event e) \<longrightarrow>
       all_high (sensors dev') \<and>
       (0 \<le> r \<and> r \<noteq> 0x7FFFFFFF \<longrightarrow> status v = SENSOR_STATUS_ACCURACY_HIGH))"
  using assms
proof (induction stream arbitrary: ns dev)
  case Nil
  then show ?case by simp
next
  case (Cons e stream)
  show ?case
  proof (cases "ev_type e = EV_SYN")
    case False
    define dev1 where "dev1 = dev\<lparr>sensors := snd (data_event e (ns, sensors dev))\<rparr>"
    from Cons.prems(2) have run: "data__poll_loop stream (fst (data_event e (ns, sensors dev)))
        dev1 values = (r, v, dev', rest)"
      unfolding data__poll_loop_event [OF False] dev1_def .
    show ?thesis
    proof (cases "is_status_event e")
      case True
      have "\<exists>used. stream = used @ rest"
        using data__poll_loop_suffix [of stream "fst (data_event e (ns, sensors dev))" dev1 "values"]
        unfolding run by simp
      then obtain used where "stream = used @ rest" ..
      with True show ?thesis
        by (intro exI [of _ "e # used"]) simp
    next
      case ns: False
      have "all_high (sensors dev1)"
        using Cons.prems(1) ns by (simp add: dev1_def data_event_all_high)
      from Cons.IH [OF this run] obtain used where "stream = used @ rest"
        and "(\<forall>e\<in>set used. \<not> is_status_event e) \<longrightarrow>
          all_high (sensors dev') \<and>
          (0 \<le> r \<and> r \<noteq> 0x7FFFFFFF \<longrightarrow> status v = SENSOR_STATUS_ACCURACY_HIGH)"
        by blast
      then show ?thesis
        by (intro exI [of _ "e # used"]) simp
    qed
  next
    case syn: True
    show ?thesis
    proof (cases "ev_code e = SYN_CONFIG")
      case True
      have "data__poll_loop (e # stream) ns dev values = (0x7FFFFFFF, values, dev, stream)"
        using syn True by (simp add: EV_SYN_def EV_ABS_def EV_LED_def)
      with Cons.prems show ?thesis
        by (intro exI [of _ "[e]"]) simp
    next
      case False
      show ?thesis
      proof (cases "ns = 0")
        case True
        with Cons.prems(2) have "data__poll_loop stream ns dev values = (r, v, dev', rest)"
          unfolding data__poll_loop_boundary [OF syn False] by simp
        from Cons.IH [OF Cons.prems(1) this] obtain used where "stream = used @ rest"
          and "(\<forall>e\<in>set used. \<not> is_status_event e) \<longrightarrow>
            all_high (sensors dev') \<and>
            (0 \<le> r \<and> r \<noteq> 0x7FFFFFFF \<longrightarrow> status v = SENSOR_STATUS_ACCURACY_HIGH)"
          by blast
        then show ?thesis
          by (intro exI [of _ "e # used"]) simp
      next
        case nz: False
        define dev2 where "dev2 = dev\<lparr>pendingSensors := ns,
          sensors := stamp_time ns (event_time_ns e) (sensors dev)\<rparr>"
        have high: "all_high (sensors dev2)"
          using Cons.prems(1) by (simp add: dev2_def stamp_time_all_high)
        from Cons.prems(2) nz have p: "pick_sensor dev2 values = (r, v, dev')"
          and rest: "rest = stream"
          unfolding data__poll_loop_boundary [OF syn False] dev2_def
          by (simp_all add: Let_def prod_eq_iff)
        from pick_sensor_sensors [of dev2 "values"] p high have "all_high (sensors dev')"
          by simp
        moreover have "status v = SENSOR_STATUS_ACCURACY_HIGH" if "0 \<le> r"
          using pick_sensor_all_high [OF high p that] .
        ultimately show ?thesis
          using rest by (intro exI [of _ "[e]"]) simp
      qed
    qed
  qed
qed

lemma data__poll_read:
  assumes "all_high (sensors dev)"
    and "data__poll dev values stream = (r, v, dev', rest)"
  shows "\<exists>used. stream = used @ rest \<and>
    ((\<forall>e\<in>set used. \<not> is_status_event e) \<longrightarrow>
       all_high (sensors dev') \<and>
       (0 \<le> r \<and> r \<noteq> 0x7FFFFFFF \<longrightarrow> status v = SENSOR_STATUS_ACCURACY_HIGH))"
proof (cases "events_fd dev < 0")
  case True
  with assms show ?thesis
    by (intro exI [of _ "[]"]) (auto simp: data__poll_def)
next
  case fd: False
  show ?thesis
  proof (cases "pendingSensors dev = 0")
    case True
    with fd assms(2) have "data__poll_loop stream 0 dev values = (r, v, dev', rest)"
      by (simp add: data__poll_def)
    from data__poll_loop_read [OF assms(1) this] show ?thesis .
  next
    case False
    with fd assms(2) have p: "pick_sensor dev values = (r, v, dev')" and rest: "rest = stream"
      by (simp_all add: data__poll_def Let_def prod_eq_iff)
    from pick_sensor_sensors [of dev "values"] p assms(1) have "all_high (sensors dev')"
      by simp
    moreover have "status v = SENSOR_STATUS_ACCURACY_HIGH" if "0 \<le> r"
      using pick_sensor_all_high [OF assms(1) p that] .
    ultimately show ?thesis
      using rest by (intro exI [of _ "[]"]) simp
  qed
qed

lemma data__poll_suffix:
  "\<exists>used. stream = used @ snd (snd (snd (data__poll dev values stream)))"
  using data__poll_loop_suffix [of stream 0 dev "values"]
  by (simp add: data__poll_def Let_def)

lemma data__poll_calls_suffix:
  "(r, v, rest) \<in> set (data__poll_calls dev stream bufs) \<Longrightarrow> \<exists>used. stream = used @ rest"
proof (induction bufs arbitrary: dev stream)
  case Nil
  then show ?case by simp
next
  case (Cons b bufs)
  obtain r1 v1 dev1 rest1 where p: "data__poll dev b stream = (r1, v1, dev1, rest1)"
    by (metis prod.collapse)
  have "\<exists>used. stream = used @ rest1"
    using data__poll_suffix [of stream dev b] unfolding p by simp
  then obtain used1 where u1: "stream = used1 @ rest1" ..
  from Cons.prems p consider "rest = rest1"
    | "(r, v, rest) \<in> set (data__poll_calls dev1 rest1 bufs)"
    by (auto simp: Let_def)
  then show ?case
  proof cases
    case 1
    with u1 show ?thesis by blast
  next
    case 2
    from Cons.IH [OF 2] obtain used2 where "rest1 = used2 @ rest" ..
    with u1 show ?thesis
      by (intro exI [of _ "used1 @ used2"]) simp
  qed
qed

lemma data__poll_calls_all_high:
  assumes "all_high (sensors dev)"
    and "(r, v, rest) \<in> set (data__poll_calls dev (used @ rest) bufs)"
    and "\<forall>e\<in>set used. \<not> is_status_event e"
    and "0 \<le> r" and "r \<noteq> 0x7FFFFFFF"
  shows "status v = SENSOR_STATUS_ACCURACY_HIGH"
  using assms(1-3)
proof (induction bufs arbitrary: dev used)
  case Nil
  then show ?case by simp
next
  case (Cons b bufs)
  obtain r1 v1 dev1 rest1 where p: "data__poll dev b (used @ rest) = (r1, v1, dev1, rest1)"
    by (metis prod.collapse)
  from data__poll_read [OF Cons.prems(1) p] obtain used1
    where u1: "used @ rest = used1 @ rest1"
      and h1: "(\<forall>e\<in>set used1. \<not> is_status_event e) \<longrightarrow>
        all_high (sensors dev1) \<and>
        (0 \<le> r1 \<and> r1 \<noteq> 0x7FFFFFFF \<longrightarrow> status v1 = SENSOR_STATUS_ACCURACY_HIGH)"
    by blast
  from Cons.prems(2) p consider "r = r1" "v = v1" "rest = rest1"
    | "(r, v, rest) \<in> set (data__poll_calls dev1 rest1 bufs)"
    by (auto simp: Let_def)
  then show ?case
  proof cases
    case 1
    with u1 have "used1 = used"
      by simp
    with h1 Cons.prems(3) 1 assms(4,5) show ?thesis
      by simp
  next
    case 2
    from data__poll_calls_suffix [OF 2] obtain used2 where u2: "rest1 = used2 @ rest" ..
    with u1 have used: "used = used1 @ used2"
      by simp
    with h1 Cons.prems(3) have high: "all_high (sensors dev1)"
      by simp
    from 2 u2 have "(r, v, rest) \<in> set (data__poll_calls dev1 (used2 @ rest) bufs)"
      by simp
    from Cons.IH [OF high this] used Cons.prems(3) show ?thesis
      by simp
  qed
qed

text \<open>
  Claim C10. \<^verbatim>\<open>data__data_open\<close> returns 0 and leaves every sample of the array zero but
  for the status \<^verbatim>\<open>SENSOR_STATUS_ACCURACY_HIGH\<close>, \<^verbatim>\<open>pendingSensors\<close> zero and the descriptor
  the duplicate of the handle's. The context after it does not depend on the context
  before, so neither does the first \<^verbatim>\<open>data__poll\<close>, nor any run of calls of \<^verbatim>\<open>data__poll\<close>
  after it. A sample that the first \<^verbatim>\<open>data__poll\<close> delivers from a stream without status
  events reports high accuracy; and so does every sample that any call of a run of calls
  after \<^verbatim>\<open>data__data_open\<close> delivers, the first or a later one, as long as the events read
  up to the end of that call, the part \<open>used\<close> of the stream before the rest that the call
  leaves unread, hold no status event.
\<close>

theorem data_open_resets:
  "fst (data__data_open dev fd) = 0 \<and>
   (\<forall>i<MAX_NUM_SENSORS. sensors (snd (data__data_open dev fd)) i =
      zero_sample\<lparr>status := SENSOR_STATUS_ACCURACY_HIGH\<rparr>) \<and>
   pendingSensors (snd (data__data_open dev fd)) = 0 \<and>
   events_fd (snd (data__data_open dev fd)) = fd \<and>
   data__data_open dev fd = data__data_open other fd \<and>
   data__poll (snd (data__data_open dev fd)) values stream =
     data__poll (snd (data__data_open other fd)) values stream \<and>
   data__poll_calls (snd (data__data_open dev fd)) stream bufs =
     data__poll_calls (snd (data__data_open other fd)) stream bufs \<and>
   ((\<forall>e\<in>set stream. \<not> is_status_event e) \<and>
    data__poll (snd (data__data_open dev fd)) values stream = (r, v, dev', rest) \<and>
    0 \<le> r \<and> r \<noteq> 0x7FFFFFFF \<longrightarrow>
      status v = SENSOR_STATUS_ACCURACY_HIGH) \<and>
   ((k, s, unread) \<in> set (data__poll_calls (snd (data__data_open dev fd)) (used @ unread) bufs) \<and>
    (\<forall>e\<in>set used. \<not> is_status_event e) \<and> 0 \<le> k \<and> k \<noteq> 0x7FFFFFFF \<longrightarrow>
      status s = SENSOR_STATUS_ACCURACY_HIGH)"
proof -
  define d where "d = snd (data__data_open dev fd)"
  have high: "all_high (sensors d)"
    by (simp add: d_def data__data_open_eq all_high_def)
  have pend: "pendingSensors d = 0"
    by (simp add: d_def data__data_open_eq)
  have first: "status v = SENSOR_STATUS_ACCURACY_HIGH"
    if ns: "\<forall>e\<in>set stream. \<not> is_status_event e"
      and p: "data__poll d values stream = (r, v, dev', rest)"
      and r: "0 \<le> r" "r \<noteq> 0x7FFFFFFF"
  proof (cases "events_fd d < 0")
    case True
    with p r show ?thesis
      by (simp add: data__poll_def)
  next
    case False
    with p pend have "data__poll_loop stream 0 d values = (r, v, dev', rest)"
      by (simp add: data__poll_def)
    from data__poll_loop_all_high [OF high ns this r] show ?thesis .
  qed
  have run: "status s = SENSOR_STATUS_ACCURACY_HIGH"
    if "(k, s, unread) \<in> set (data__poll_calls d (used @ unread) bufs)"
      and "\<forall>e\<in>set used. \<not> is_status_event e" and "0 \<le> k" and "k \<noteq> 0x7FFFFFFF"
    using data__poll_calls_all_high [OF high that] .
  have same: "data__data_open dev fd = data__data_open other fd"
    by (simp add: data__data_open_eq)
  have "fst (data__data_open dev fd) = 0"
    and "\<forall>i<MAX_NUM_SENSORS. sensors d i = zero_sample\<lparr>status := SENSOR_STATUS_ACCURACY_HIGH\<rparr>"
    and "pendingSensors d = 0" and "events_fd d = fd"
    by (simp_all add: d_def data__data_open_eq)
  with first run same show ?thesis
    unfolding d_def [symmetric] by (simp add: d_def)
qed

definition example_run :: "(int \<times> sensors_data_t \<times> input_event list) list" where
  "example_run =
     data__poll_calls (snd (data__data_open stale_ctx 4))
       ((example_epoch @ [raw_event EV_SYN 0 0]) @ [raw_event EV_ABS EVENT_TYPE_ORIENT_STATUS 2])
       [zero_sample, zero_sample]"

theorem data_open_resets_witness:
  "list_all (\<lambda>e. \<not> is_status_event e) (example_epoch @ [raw_event EV_SYN 0 0]) \<and>
   fst (data__poll (snd (data__data_open stale_ctx 4)) zero_sample
     (example_epoch @ [raw_event EV_SYN 0 0])) = 1 \<and>
   status (fst (snd (data__poll (snd (data__data_open stale_ctx 4)) zero_sample
     (example_epoch @ [raw_event EV_SYN 0 0])))) = SENSOR_STATUS_ACCURACY_HIGH \<and>
   sensors (snd (data__data_open stale_ctx 4)) ID_O =
     zero_sample\<lparr>status := SENSOR_STATUS_ACCURACY_HIGH\<rparr> \<and>
   map fst example_run = [1, 0] \<and>
   snd (snd (example_run ! 1)) = [raw_event EV_ABS EVENT_TYPE_ORIENT_STATUS 2] \<and>
   status (fst (snd (example_run ! 1))) = SENSOR_STATUS_ACCURACY_HIGH"
proof -
  have ns: "\<forall>e\<in>set (example_epoch @ [raw_event EV_SYN 0 0]). \<not> is_status_event e"
    by code_simp
  have r: "fst (data__poll (snd (data__data_open stale_ctx 4)) zero_sample
      (example_epoch @ [raw_event EV_SYN 0 0])) = 1"
    by code_simp
  have p: "data__poll (snd (data__data_open stale_ctx 4)) zero_sample
      (example_epoch @ [raw_event EV_SYN 0 0]) =
      (1, fst (snd (data__poll (snd (data__data_open stale_ctx 4)) zero_sample
            (example_epoch @ [raw_event EV_SYN 0 0]))),
       fst (snd (snd (data__poll (snd (data__data_open stale_ctx 4)) zero_sample
            (example_epoch @ [raw_event EV_SYN 0 0])))),
       snd (snd (snd (data__poll (snd (data__data_open stale_ctx 4)) zero_sample
            (example_epoch @ [raw_event EV_SYN 0 0])))))"
    using r by (metis prod.collapse)
  have lt: "ID_O < MAX_NUM_SENSORS"
    by (simp add: ID_O_def MAX_NUM_SENSORS_def)
  have ks: "map fst example_run = [1, 0]"
    by code_simp
  have unread: "snd (snd (example_run ! 1)) = [raw_event EV_ABS EVENT_TYPE_ORIENT_STATUS 2]"
    by code_simp
  from ks have len: "length example_run = 2"
    by (metis length_map length_Cons list.size(3) numeral_2_eq_2)
  from ks len have k: "fst (example_run ! 1) = 0"
    by (metis nth_map one_less_numeral_iff semiring_norm(76) nth_Cons_0 nth_Cons_Suc One_nat_def)
  from len have "example_run ! 1 \<in> set example_run"
    by simp
  with k unread have
    mem: "(0, fst (snd (example_run ! 1)), [raw_event EV_ABS EVENT_TYPE_ORIENT_STATUS 2])
      \<in> set (data__poll_calls (snd (data__data_open stale_ctx 4))
          ((example_epoch @ [raw_event EV_SYN 0 0]) @ [raw_event EV_ABS EVENT_TYPE_ORIENT_STATUS 2])
          [zero_sample, zero_sample])"
    unfolding example_run_def [symmetric] by (metis prod.collapse)
  note concl = data_open_resets [of stale_ctx 4 stale_ctx zero_sample
      "example_epoch @ [raw_event EV_SYN 0 0]" "[zero_sample, zero_sample]" 1
      "fst (snd (data__poll (snd (data__data_open stale_ctx 4)) zero_sample
        (example_epoch @ [raw_event EV_SYN 0 0])))"
      "fst (snd (snd (data__poll (snd (data__data_open stale_ctx 4)) zero_sample
        (example_epoch @ [raw_event EV_SYN 0 0]))))"
      "snd (snd (snd (data__poll (snd (data__data_open stale_ctx 4)) zero_sample
        (example_epoch @ [raw_event EV_SYN 0 0]))))"
      0 "fst (snd (example_run ! 1))" "[raw_event EV_ABS EVENT_TYPE_ORIENT_STATUS 2]"
      "example_epoch @ [raw_event EV_SYN 0 0]"]
  from concl ns p have st: "status (fst (snd (data__poll (snd (data__data_open stale_ctx 4))
      zero_sample (example_epoch @ [raw_event EV_SYN 0 0])))) = SENSOR_STATUS_ACCURACY_HIGH"
    by simp
  from concl lt have z: "sensors (snd (data__data_open stale_ctx 4)) ID_O =
      zero_sample\<lparr>status := SENSOR_STATUS_ACCURACY_HIGH\<rparr>"
    by blast
  from concl mem ns have st2: "status (fst (snd (example_run ! 1))) = SENSOR_STATUS_ACCURACY_HIGH"
    by simp
  from ns r st z ks unread st2 show ?thesis
    by (simp add: list_all_iff)
qed

text \<open>
  \<^verbatim>\<open>pendingSensors\<close> holds identity bits only: it is so after \<^verbatim>\<open>data__data_open\<close>, and
  \<^verbatim>\<open>data__poll\<close> keeps it so.
\<close>

lemma data_event_identity_bits:
  assumes "\<forall>j. bit ns j \<longrightarrow> j < MAX_NUM_SENSORS"
  shows "\<forall>j. bit (fst (data_event e (ns, sens))) j \<longrightarrow> j < MAX_NUM_SENSORS"
  using assms field_sensor_less
  by (auto simp: data_event_touched split: option.splits)

lemma pick_sensor_identity_bits:
  assumes "pendingSensors dev AND NOT SUPPORTED_SENSORS = 0"
  shows "pendingSensors (snd (snd (pick_sensor dev values))) AND NOT SUPPORTED_SENSORS = 0"
proof (cases "pendingSensors dev AND SUPPORTED_SENSORS = 0")
  case True
  with assms show ?thesis
    by (simp add: pick_sensor_none)
next
  case False
  from assms show ?thesis
    unfolding pick_sensor_pending [OF False] within_supported
    by (simp add: bit_clear_bit)
qed

lemma data__poll_loop_identity_bits:
  assumes "pendingSensors dev AND NOT SUPPORTED_SENSORS = 0"
    and "\<forall>j. bit ns j \<longrightarrow> j < MAX_NUM_SENSORS"
  shows "pendingSensors (fst (snd (snd (data__poll_loop stream ns dev values))))
           AND NOT SUPPORTED_SENSORS = 0"
  using assms
proof (induction stream arbitrary: ns dev)
  case Nil
  then show ?case by simp
next
  case (Cons e stream)
  show ?case
  proof (cases "ev_type e = EV_SYN")
    case False
    have "pendingSensors (dev\<lparr>sensors := snd (data_event e (ns, sensors dev))\<rparr>)
        AND NOT SUPPORTED_SENSORS = 0"
      using Cons.prems(1) by simp
    from Cons.IH [OF this data_event_identity_bits [OF Cons.prems(2)]] show ?thesis
      unfolding data__poll_loop_event [OF False] .
  next
    case syn: True
    show ?thesis
    proof (cases "ev_code e = SYN_CONFIG")
      case True
      have "data__poll_loop (e # stream) ns dev values = (0x7FFFFFFF, values, dev, stream)"
        using syn True by (simp add: EV_SYN_def EV_ABS_def EV_LED_def)
      with Cons.prems(1) show ?thesis
        by simp
    next
      case False
      show ?thesis
      proof (cases "ns = 0")
        case True
        with Cons.IH [OF Cons.prems] show ?thesis
          unfolding data__poll_loop_boundary [OF syn False] by simp
      next
        case nz: False
        define dev2 where "dev2 = dev\<lparr>pendingSensors := ns,
          sensors := stamp_time ns (event_time_ns e) (sensors dev)\<rparr>"
        have "pendingSensors dev2 AND NOT SUPPORTED_SENSORS = 0"
          using Cons.prems(2) by (simp add: dev2_def within_supported MAX_NUM_SENSORS_def)
        from pick_sensor_identity_bits [OF this, of "values"] nz show ?thesis
          unfolding data__poll_loop_boundary [OF syn False] dev2_def
          by (simp add: Let_def)
      qed
    qed
  qed
qed

lemma data__poll_identity_bits:
  assumes "pendingSensors dev AND NOT SUPPORTED_SENSORS = 0"
  shows "pendingSensors (fst (snd (snd (data__poll dev values stream))))
           AND NOT SUPPORTED_SENSORS = 0"
proof -
  have "\<forall>j. bit (0 :: u32) j \<longrightarrow> j < MAX_NUM_SENSORS"
    by simp
  from data__poll_loop_identity_bits [OF assms this, of stream "values"]
    pick_sensor_identity_bits [OF assms, of "values"] assms
  show ?thesis
    by (simp add: data__poll_def Let_def)
qed

lemma data__data_open_identity_bits:
  "pendingSensors (snd (data__data_open dev fd)) AND NOT SUPPORTED_SENSORS = 0"
  by (simp add: data__data_open_eq)

section \<open>The proximity conversion\<close>
























section \<open>The replication path\<close>

text \<open>A control context whose replication sink is open.\<close>

definition replica_ctx :: sensors_control_context_t where
  "replica_ctx = control_init\<lparr>uinput := 5\<rparr>"

lemma top_bit_magnetic: "top_bit SENSORS_MAGNETIC_FIELD = ID_M"
  by code_simp

lemma clear_bit_magnetic: "clear_bit SENSORS_MAGNETIC_FIELD ID_M = 0"
  by code_simp

lemma mirror_case_magnetic:
  "mirror_case ID_M active filt =
     send_vector EVENT_TYPE_MAGV_X EVENT_TYPE_MAGV_Y EVENT_TYPE_MAGV_Z (filt ID_M) @
     send_orientation filt"
  by (simp add: mirror_case_def sensor_bit_defs id_defs)

text \<open>
  Claim C2, where the code departs from it. When the magnetic field alone was touched
  since the last boundary, the mirroring loop emits the magnetic group and then an
  orientation group, each with its synchronization marker: the case
  \<^verbatim>\<open>SENSORS_MAGNETIC_FIELD\<close> of the \<^verbatim>\<open>switch\<close> has no \<^verbatim>\<open>break\<close>. The stream of one raw
  magnetic x event and a boundary shows it: the orientation bit is not in
  \<^verbatim>\<open>new_sensors\<close>, and yaw, pitch and roll are written to the sink.
\<close>

theorem mirror_magnetic_emits_orientation:
  "mirror_loop SENSORS_MAGNETIC_FIELD active filt =
     send_vector EVENT_TYPE_MAGV_X EVENT_TYPE_MAGV_Y EVENT_TYPE_MAGV_Z (filt ID_M) @
     send_vector EVENT_TYPE_YAW EVENT_TYPE_PITCH EVENT_TYPE_ROLL (filt ID_O) \<and>
   fst (fst (poll_thread_events [raw_event EV_ABS EVENT_TYPE_MAGV_X 7] (0, replica_ctx))) =
     SENSORS_MAGNETIC_FIELD \<and>
   \<not> bit SENSORS_MAGNETIC_FIELD ID_O \<and>
   snd (poll_thread_events [raw_event EV_ABS EVENT_TYPE_MAGV_X 7, raw_event EV_SYN 0 0]
         (0, replica_ctx)) =
     [Send_event EV_ABS EVENT_TYPE_MAGV_X 7, Send_event EV_ABS EVENT_TYPE_MAGV_Y 0,
      Send_event EV_ABS EVENT_TYPE_MAGV_Z 0, Send_event EV_SYN 0 0,
      Send_event EV_ABS EVENT_TYPE_YAW 0, Send_event EV_ABS EVENT_TYPE_PITCH 0,
      Send_event EV_ABS EVENT_TYPE_ROLL 0, Send_event EV_SYN 0 0]"
proof -
  have nz: "SENSORS_MAGNETIC_FIELD \<noteq> 0"
    by (simp add: SENSORS_MAGNETIC_FIELD_def ID_M_def)
  have "mirror_loop SENSORS_MAGNETIC_FIELD active filt =
      mirror_case ID_M active filt @ mirror_loop 0 active filt"
    using nz
    by (subst mirror_loop.simps) (simp add: Let_def top_bit_magnetic clear_bit_magnetic)
  also have "mirror_loop 0 active filt = []"
    by (subst mirror_loop.simps) simp
  finally have loop: "mirror_loop SENSORS_MAGNETIC_FIELD active filt =
      send_vector EVENT_TYPE_MAGV_X EVENT_TYPE_MAGV_Y EVENT_TYPE_MAGV_Z (filt ID_M) @
      send_vector EVENT_TYPE_YAW EVENT_TYPE_PITCH EVENT_TYPE_ROLL (filt ID_O)"
    by (simp add: mirror_case_magnetic send_orientation_def)
  have touched: "fst (fst (poll_thread_events [raw_event EV_ABS EVENT_TYPE_MAGV_X 7]
      (0, replica_ctx))) = SENSORS_MAGNETIC_FIELD"
    by code_simp
  have untouched: "\<not> bit SENSORS_MAGNETIC_FIELD ID_O"
    by code_simp
  have out: "snd (poll_thread_events [raw_event EV_ABS EVENT_TYPE_MAGV_X 7, raw_event EV_SYN 0 0]
         (0, replica_ctx)) =
     [Send_event EV_ABS EVENT_TYPE_MAGV_X 7, Send_event EV_ABS EVENT_TYPE_MAGV_Y 0,
      Send_event EV_ABS EVENT_TYPE_MAGV_Z 0, Send_event EV_SYN 0 0,
      Send_event EV_ABS EVENT_TYPE_YAW 0, Send_event EV_ABS EVENT_TYPE_PITCH 0,
      Send_event EV_ABS EVENT_TYPE_ROLL 0, Send_event EV_SYN 0 0]"
    by code_simp
  from loop touched untouched out show ?thesis
    by blast
qed

end
